theory Spec2Isabelle
  imports Main
begin

section \<open>Regular expressions of the naming rules\<close>

text \<open>
  The handler recognises generator files with JavaScript regular expressions. They are
  kept as regular expressions here and run by a derivative matcher, so that each
  pattern below can be read against the pattern in the source.
\<close>

datatype rx =
    Zero
  | Eps
  | Cls string
  | Dot
  | Seq rx rx
  | Alt rx rx
  | Star rx

fun nullable :: "rx \<Rightarrow> bool" where
  "nullable Zero = False"
| "nullable Eps = True"
| "nullable (Cls cs) = False"
| "nullable Dot = False"
| "nullable (Seq r s) = (nullable r \<and> nullable s)"
| "nullable (Alt r s) = (nullable r \<or> nullable s)"
| "nullable (Star r) = True"

fun mk_seq :: "rx \<Rightarrow> rx \<Rightarrow> rx" where
  "mk_seq Zero s = Zero"
| "mk_seq Eps s = s"
| "mk_seq r s = Seq r s"

fun mk_alt :: "rx \<Rightarrow> rx \<Rightarrow> rx" where
  "mk_alt Zero s = s"
| "mk_alt r Zero = r"
| "mk_alt r s = Alt r s"

text \<open>\<open>.\<close> of a JavaScript pattern (no \<open>s\<close> flag) matches any character but a line terminator.\<close>

definition line_terminator :: "char \<Rightarrow> bool" where
  "line_terminator c = (c = CHR 0x0A \<or> c = CHR 0x0D)"

fun deriv :: "char \<Rightarrow> rx \<Rightarrow> rx" where
  "deriv c Zero = Zero"
| "deriv c Eps = Zero"
| "deriv c (Cls cs) = (if c \<in> set cs then Eps else Zero)"
| "deriv c Dot = (if line_terminator c then Zero else Eps)"
| "deriv c (Seq r s) =
     (if nullable r then mk_alt (mk_seq (deriv c r) s) (deriv c s)
      else mk_seq (deriv c r) s)"
| "deriv c (Alt r s) = mk_alt (deriv c r) (deriv c s)"
| "deriv c (Star r) = mk_seq (deriv c r) (Star r)"

text \<open>The whole string matches (a pattern anchored by \<open>^\<close> and \<open>$\<close>).\<close>

fun matches :: "rx \<Rightarrow> string \<Rightarrow> bool" where
  "matches r [] = nullable r"
| "matches r (c # cs) = matches (deriv c r) cs"

text \<open>Some prefix of the string matches (a pattern with no \<open>$\<close>, tried at one position).\<close>

fun matches_prefix :: "rx \<Rightarrow> string \<Rightarrow> bool" where
  "matches_prefix r [] = nullable r"
| "matches_prefix r (c # cs) = (nullable r \<or> matches_prefix (deriv c r) cs)"

text \<open>Some suffix of the string matches (a pattern with \<open>$\<close> and no \<open>^\<close>): \<open>regex.test\<close>.\<close>

fun matches_suffix :: "rx \<Rightarrow> string \<Rightarrow> bool" where
  "matches_suffix r [] = nullable r"
| "matches_suffix r (c # cs) = (matches r (c # cs) \<or> matches_suffix r cs)"

fun lit :: "string \<Rightarrow> rx" where
  "lit [] = Eps"
| "lit (c # cs) = Seq (Cls [c]) (lit cs)"

definition one_or_more :: "rx \<Rightarrow> rx" where
  "one_or_more r = Seq r (Star r)"

definition digit :: rx where
  "digit = Cls ''0123456789''"

definition lower :: rx where
  "lower = Cls ''abcdefghijklmnopqrstuvwxyz''"

definition lower_or_digit :: rx where
  "lower_or_digit = Cls ''abcdefghijklmnopqrstuvwxyz0123456789''"

text \<open>\<^verbatim>\<open>[a-z][a-z0-9]*(_[a-z][a-z0-9]*)*\<close>\<close>

definition snake :: rx where
  "snake = Seq lower (Seq (Star lower_or_digit)
     (Star (Seq (lit ''_'') (Seq lower (Star lower_or_digit)))))"

text \<open>\<^verbatim>\<open>_generate_[a-z][a-z0-9]*(_[a-z][a-z0-9]*)*_table\<close>\<close>

definition generate_table :: rx where
  "generate_table = Seq (lit ''_generate_'') (Seq snake (lit ''_table''))"

text \<open>\<^verbatim>\<open>/^[0-9]+_generate_[a-z][a-z0-9]*(_[a-z][a-z0-9]*)*_table\.(ts|js)$/\<close>\<close>

definition isFile :: "string \<Rightarrow> bool" where
  "isFile name =
     matches (Seq (one_or_more digit) (Seq generate_table
       (Seq (lit ''.'') (Alt (lit ''ts'') (lit ''js''))))) name"

text \<open>\<^verbatim>\<open>/^[0-9]+_generate_[a-z][a-z0-9]*(_[a-z][a-z0-9]*)*_table\.ts$/\<close>\<close>

definition isTsFile :: "string \<Rightarrow> bool" where
  "isTsFile name =
     matches (Seq (one_or_more digit) (Seq generate_table (lit ''.ts''))) name"

text \<open>\<^verbatim>\<open>/^[0-9]+_generate_[a-z][a-z0-9]*(_[a-z][a-z0-9]*)*_table(\.js\.map|\.d\.ts)$/\<close>\<close>

definition isMappedFile :: "string \<Rightarrow> bool" where
  "isMappedFile name =
     matches (Seq (one_or_more digit) (Seq generate_table
       (Alt (lit ''.js.map'') (lit ''.d.ts'')))) name"

text \<open>
  \<open>isSnakeCase\<close> and \<open>isFullStr\<close> come from the package \<open>@megaorm/test\<close>: a snake-case
  name is taken to be what the file patterns accept as a table name, a full string to
  be a string with a character that is not a blank.
\<close>

definition isSnakeCase :: "string \<Rightarrow> bool" where
  "isSnakeCase name = matches snake name"

definition isFullStr :: "string \<Rightarrow> bool" where
  "isFullStr s = (\<exists>c \<in> set s. c \<noteq> CHR '' '' \<and> c \<noteq> CHR 0x09 \<and> \<not> line_terminator c)"

section \<open>Paths\<close>

text \<open>
  \<open>basename\<close>, \<open>dirname\<close> and \<open>resolve\<close> of Node's \<open>path\<close> module, on POSIX paths that
  are absolute and normalised (no trailing \<open>/\<close>), as \<open>resolve\<close> returns them and as
  the commands pass the generators directory.
\<close>

definition basename :: "string \<Rightarrow> string" where
  "basename p = rev (takeWhile (\<lambda>c. c \<noteq> CHR ''/'') (rev p))"

definition dirname :: "string \<Rightarrow> string" where
  "dirname p =
     (if CHR ''/'' \<notin> set p then ''.''
      else let d = rev (tl (dropWhile (\<lambda>c. c \<noteq> CHR ''/'') (rev p)))
           in if d = [] then ''/'' else d)"

definition resolvePath :: "string \<Rightarrow> string \<Rightarrow> string" where
  "resolvePath dir file = (if dir = ''/'' then ''/'' @ file else dir @ ''/'' @ file)"

section \<open>Numbers as text\<close>

definition digit_char :: "nat \<Rightarrow> char" where
  "digit_char d = ''0123456789'' ! (d mod 10)"

fun toString :: "nat \<Rightarrow> string" where
  "toString n = (if n < 10 then [digit_char n] else toString (n div 10) @ [digit_char n])"

text \<open>\<^verbatim>\<open>s.padStart(2, '0')\<close>\<close>

definition padStart2 :: "string \<Rightarrow> string" where
  "padStart2 s = replicate (2 - length s) (CHR ''0'') @ s"

text \<open>\<open>parseInt\<close> on a string of decimal digits (exact below \<open>2 ^ 53\<close>).\<close>

definition digit_value :: "char \<Rightarrow> nat" where
  "digit_value c = (case find (\<lambda>d. digit_char d = c) [0 ..< 10] of Some d \<Rightarrow> d | None \<Rightarrow> 0)"

definition parseInt :: "string \<Rightarrow> nat" where
  "parseInt s = foldl (\<lambda>n c. 10 * n + digit_value c) 0 s"

declare toString.simps [simp del]

section \<open>Errors, rows and generators\<close>

text \<open>
  \<open>QueryError\<close> is the error class of \<open>@megaorm/errors\<close>, \<open>GeneratorHandlerError\<close> the
  handler's own; \<open>PlainError\<close> is any other \<open>Error\<close>. Each carries its message.
\<close>

datatype error =
    QueryError string
  | GeneratorHandlerError string
  | PlainError string

fun message :: "error \<Rightarrow> string" where
  "message (QueryError m) = m"
| "message (GeneratorHandlerError m) = m"
| "message (PlainError m) = m"

text \<open>\<^verbatim>\<open>isChildOf(error, QueryError)\<close>\<close>

fun isQueryError :: "error \<Rightarrow> bool" where
  "isQueryError (QueryError m) = True"
| "isQueryError e = False"

text \<open>
  \<^verbatim>\<open>type Row = { id: number; batch: number; path: string }\<close>. The batch column is
  \<open>smallInt().unsigned().notNull()\<close> and the id a key the store assigns: naturals.
\<close>

record row =
  row_id :: nat
  row_batch :: nat
  row_path :: string

text \<open>\<^verbatim>\<open>type Gen = { paths: string[]; batch: number }\<close>\<close>

record Gen =
  paths :: "string list"
  batch :: nat

text \<open>
  What a generator's \<open>create()\<close> or \<open>drop()\<close> does when called: it returns a promise
  that resolves or rejects, it throws, or it returns a value that is not a promise.
\<close>

datatype outcome =
    Resolves
  | Rejects error
  | Throws error
  | Returns

text \<open>
  A \<open>MegaGenerator\<close> instance as far as the handler looks at it: the name of its class
  (\<open>constructor.name\<close>), its table (\<open>get.table()\<close>) and what its two methods do.
\<close>

record generator =
  gen_name :: string
  gen_table :: string
  gen_create :: outcome
  gen_drop :: outcome

text \<open>What \<open>require(path)\<close> returns: a generator, an object with properties, or anything else.\<close>

datatype jsvalue =
    Instance generator
  | Obj "(string \<times> jsvalue) list"
  | Other

text \<open>A column of the ledger's schema, as \<open>Generator.create\<close> builds it.\<close>

datatype constraint = Pk | Text | SmallInt | Unsigned | NotNull

type_synonym column = "string \<times> constraint list"

section \<open>The world the handler runs in\<close>

text \<open>
  Every call the handler makes outside itself is recorded in order: raw statements, the
  schema of the ledger table, inserts and deletes of the query builder, module loads,
  \<open>create()\<close> and \<open>drop()\<close> of a generator (named by its path), and the file system.
\<close>

datatype event =
    Raw string
  | Schema string "column list"
  | InsertRow string "string \<times> nat"
  | InsertRows string "(string \<times> nat) list"
  | Delete string "string list"
  | Require string
  | Create string
  | Drop string
  | Readdir string
  | Unlink string
  | Rename string string

text \<open>
  The state: the handler's field \<open>rows\<close>; the table \<open>generators\<close> of the store (\<open>None\<close>
  when it does not exist) with its next id; the files on disk, as absolute paths in
  directory order; what each module path loads; the failures the store and the file
  system will answer with, one entry taken by each call (\<open>None\<close>, or nothing left: the
  call runs normally); and the calls made so far.
\<close>

record state =
  rows :: "row list"
  generators_table :: "row list option"
  next_id :: nat
  disk :: "string list"
  modules :: "string \<Rightarrow> string + jsvalue"
  faults :: "error option list"
  trace :: "event list"

definition emit :: "event \<Rightarrow> state \<Rightarrow> state" where
  "emit ev st = st\<lparr>trace := trace st @ [ev]\<rparr>"

definition take_fault :: "state \<Rightarrow> error option \<times> state" where
  "take_fault st =
     (case faults st of
        [] \<Rightarrow> (None, st)
      | f # fs \<Rightarrow> (f, st\<lparr>faults := fs\<rparr>))"

text \<open>The fault the next call will meet, and the rows of the ledger (none without its table).\<close>

definition next_fault :: "state \<Rightarrow> error option" where
  "next_fault st = (case faults st of [] \<Rightarrow> None | f # fs \<Rightarrow> f)"

definition ledger_rows :: "state \<Rightarrow> row list" where
  "ledger_rows st = (case generators_table st of None \<Rightarrow> [] | Some rs \<Rightarrow> rs)"

text \<open>One external call: recorded, then failed by the next scheduled fault if there is one.\<close>

definition call :: "event \<Rightarrow> state \<Rightarrow> error option \<times> state" where
  "call ev st = take_fault (emit ev st)"

subsection \<open>The store\<close>

definition no_table :: error where
  "no_table = QueryError ''Table generators does not exist''"

definition table_exists :: error where
  "table_exists = QueryError ''Table generators already exists''"

text \<open>\<^verbatim>\<open>builder.raw('SELECT * FROM generators;')\<close>\<close>

definition raw_select :: "state \<Rightarrow> (error + row list) \<times> state" where
  "raw_select st =
     (case call (Raw ''SELECT * FROM generators;'') st of
        (Some e, st1) \<Rightarrow> (Inl e, st1)
      | (None, st1) \<Rightarrow>
          (case generators_table st1 of
             None \<Rightarrow> (Inl no_table, st1)
           | Some rs \<Rightarrow> (Inr rs, st1)))"

text \<open>
  \<^verbatim>\<open>builder.raw(`DROP TABLE ${name};`)\<close>. Only the ledger's table is kept in the state;
  dropping another table succeeds unless a fault is scheduled.
\<close>

definition raw_drop :: "string \<Rightarrow> state \<Rightarrow> (error + unit) \<times> state" where
  "raw_drop name st =
     (case call (Raw (''DROP TABLE '' @ name @ '';'')) st of
        (Some e, st1) \<Rightarrow> (Inl e, st1)
      | (None, st1) \<Rightarrow>
          (if name = ''generators'' then
             (case generators_table st1 of
                None \<Rightarrow> (Inl no_table, st1)
              | Some rs \<Rightarrow> (Inr (), st1\<lparr>generators_table := None\<rparr>))
           else (Inr (), st1)))"

text \<open>
  \<open>Generator.create\<close>:
  \<^verbatim>\<open>this.schema(this.column('id').pk(), this.column('path').text().notNull(),
              this.column('batch').smallInt().unsigned().notNull())\<close>
  on the table \<open>generators\<close>.
\<close>

definition Generator_columns :: "column list" where
  "Generator_columns =
     [(''id'', [Pk]), (''path'', [Text, NotNull]), (''batch'', [SmallInt, Unsigned, NotNull])]"

definition Generator_create :: "state \<Rightarrow> (error + unit) \<times> state" where
  "Generator_create st =
     (case call (Schema ''generators'' Generator_columns) st of
        (Some e, st1) \<Rightarrow> (Inl e, st1)
      | (None, st1) \<Rightarrow>
          (case generators_table st1 of
             Some rs \<Rightarrow> (Inl table_exists, st1)
           | None \<Rightarrow> (Inr (), st1\<lparr>generators_table := Some [], next_id := 1\<rparr>)))"

text \<open>The store gives the inserted rows consecutive ids.\<close>

fun new_rows :: "nat \<Rightarrow> (string \<times> nat) list \<Rightarrow> row list" where
  "new_rows i [] = []"
| "new_rows i ((p, b) # rs) =
     \<lparr>row_id = i, row_batch = b, row_path = p\<rparr> # new_rows (Suc i) rs"

definition insert_exec :: "event \<Rightarrow> (string \<times> nat) list \<Rightarrow> state \<Rightarrow> (error + unit) \<times> state" where
  "insert_exec ev rs st =
     (case call ev st of
        (Some e, st1) \<Rightarrow> (Inl e, st1)
      | (None, st1) \<Rightarrow>
          (case generators_table st1 of
             None \<Rightarrow> (Inl no_table, st1)
           | Some old \<Rightarrow>
               (Inr (), st1\<lparr>generators_table := Some (old @ new_rows (next_id st1) rs),
                             next_id := next_id st1 + length rs\<rparr>)))"

text \<open>
  \<^verbatim>\<open>function add(paths, batch, builder)\<close>: one row per path; \<open>insert.row\<close> for exactly
  one row, \<open>insert.rows\<close> otherwise.
\<close>

definition insert_event :: "(string \<times> nat) list \<Rightarrow> event" where
  "insert_event rs =
     (if length rs = 1 then InsertRow ''generators'' (hd rs) else InsertRows ''generators'' rs)"

definition add :: "string list \<Rightarrow> nat \<Rightarrow> state \<Rightarrow> (error + unit) \<times> state" where
  "add ps b st = (let rs = map (\<lambda>p. (p, b)) ps in insert_exec (insert_event rs) rs st)"

text \<open>
  \<^verbatim>\<open>function remove(paths, builder)\<close>:
  \<^verbatim>\<open>builder.delete().from('generators').where((col) => col('path').in(...paths)).exec()\<close>
\<close>

definition remove_rows :: "string list \<Rightarrow> state \<Rightarrow> (error + unit) \<times> state" where
  "remove_rows ps st =
     (case call (Delete ''generators'' ps) st of
        (Some e, st1) \<Rightarrow> (Inl e, st1)
      | (None, st1) \<Rightarrow>
          (case generators_table st1 of
             None \<Rightarrow> (Inl no_table, st1)
           | Some old \<Rightarrow>
               (Inr (), st1\<lparr>generators_table :=
                               Some (filter (\<lambda>r. row_path r \<notin> set ps) old)\<rparr>)))"

subsection \<open>The file system\<close>

definition enoent :: "string \<Rightarrow> error" where
  "enoent p = PlainError (''ENOENT: no such file or directory '' @ p)"

text \<open>\<^verbatim>\<open>fs.readdir(path)\<close>: the names of the files of that directory.\<close>

definition listing :: "string \<Rightarrow> state \<Rightarrow> string list" where
  "listing dir st = map basename (filter (\<lambda>p. dirname p = dir) (disk st))"

definition readdir :: "string \<Rightarrow> state \<Rightarrow> (error + string list) \<times> state" where
  "readdir dir st =
     (case call (Readdir dir) st of
        (Some e, st1) \<Rightarrow> (Inl e, st1)
      | (None, st1) \<Rightarrow> (Inr (listing dir st1), st1))"

definition fs_unlink :: "string \<Rightarrow> state \<Rightarrow> (error + unit) \<times> state" where
  "fs_unlink p st =
     (case call (Unlink p) st of
        (Some e, st1) \<Rightarrow> (Inl e, st1)
      | (None, st1) \<Rightarrow>
          (if p \<in> set (disk st1) then (Inr (), st1\<lparr>disk := filter (\<lambda>q. q \<noteq> p) (disk st1)\<rparr>)
           else (Inl (enoent p), st1)))"

text \<open>\<^verbatim>\<open>fs.rename(old, new)\<close> replaces a file that has the new name.\<close>

definition fs_rename :: "string \<Rightarrow> string \<Rightarrow> state \<Rightarrow> (error + unit) \<times> state" where
  "fs_rename old new st =
     (case call (Rename old new) st of
        (Some e, st1) \<Rightarrow> (Inl e, st1)
      | (None, st1) \<Rightarrow>
          (if old \<in> set (disk st1) then
             (Inr (), st1\<lparr>disk := map (\<lambda>q. if q = old then new else q)
                                      (filter (\<lambda>q. q = old \<or> q \<noteq> new) (disk st1))\<rparr>)
           else (Inl (enoent old), st1)))"

text \<open>
  \<^verbatim>\<open>Promise.all(calls)\<close>: every call is made; the result fails with a failure of one of
  them (here the first in call order) and succeeds when all have.
\<close>

fun all_calls :: "(state \<Rightarrow> (error + unit) \<times> state) list \<Rightarrow> state \<Rightarrow> (error + unit) \<times> state" where
  "all_calls [] st = (Inr (), st)"
| "all_calls (f # fs) st =
     (case f st of
        (Inl e, st1) \<Rightarrow> (Inl e, snd (all_calls fs st1))
      | (Inr u, st1) \<Rightarrow> all_calls fs st1)"

section \<open>The generator handler\<close>

text \<open>\<^verbatim>\<open>function lastBatch(batches)\<close>: \<open>reduce\<close> from 0, keeping the greater.\<close>

definition lastBatch :: "nat list \<Rightarrow> nat" where
  "lastBatch batches =
     (if batches = [] then 0
      else foldl (\<lambda>best b. if b > best then b else best) 0 batches)"

text \<open>\<^verbatim>\<open>function sfx(paths)\<close>\<close>

definition sfx :: "'a list \<Rightarrow> string" where
  "sfx ps = (if length ps = 1 then [] else ''s'')"

text \<open>The constructor: \<^verbatim>\<open>this.rows = new Array()\<close>.\<close>

definition new_handler :: "state \<Rightarrow> state" where
  "new_handler st = st\<lparr>rows := []\<rparr>"

subsection \<open>collectPaths\<close>

text \<open>The first file that the validation loop rejects, if any.\<close>

definition invalid_file :: "bool \<Rightarrow> string list \<Rightarrow> string option" where
  "invalid_file mapped files =
     find (\<lambda>file. \<not> isFile file \<and> \<not> (mapped \<and> isMappedFile file)) files"

definition collectPaths :: "string \<Rightarrow> bool \<Rightarrow> state \<Rightarrow> (error + string list) \<times> state" where
  "collectPaths dir mapped st =
     (case readdir dir st of
        (Inl e, st1) \<Rightarrow> (Inl (GeneratorHandlerError (message e)), st1)
      | (Inr result, st1) \<Rightarrow>
          (if result = [] then (Inr [], st1)
           else
             let files = (if mapped then result
                          else filter (\<lambda>name. \<not> isMappedFile name) result)
             in (case invalid_file mapped files of
                   Some file \<Rightarrow>
                     (Inl (GeneratorHandlerError (''Invalid generator file: '' @ file)), st1)
                 | None \<Rightarrow> (Inr (map (resolvePath dir) files), st1))))"

subsection \<open>collectGenerators\<close>

text \<open>
  One module: \<open>require\<close> may throw; the module is a generator (default export), or an
  object with exactly one property whose value is a generator (named export).
\<close>

fun exported :: "jsvalue \<Rightarrow> generator option" where
  "exported (Instance g) = Some g"
| "exported (Obj [(key, Instance g)]) = Some g"
| "exported v = None"

text \<open>The generator a path loads, if it loads one.\<close>

definition generator_at :: "state \<Rightarrow> string \<Rightarrow> generator option" where
  "generator_at st p = (case modules st p of Inl msg \<Rightarrow> None | Inr module \<Rightarrow> exported module)"

fun collect_loop :: "string list \<Rightarrow> generator list \<Rightarrow> state \<Rightarrow> (error + generator list) \<times> state" where
  "collect_loop [] gens st = (Inr gens, st)"
| "collect_loop (p # ps) gens st =
     (let st1 = emit (Require p) st
      in case modules st1 p of
           Inl msg \<Rightarrow> (Inl (GeneratorHandlerError msg), st1)
         | Inr module \<Rightarrow>
             (case exported module of
                Some g \<Rightarrow> collect_loop ps (gens @ [g]) st1
              | None \<Rightarrow> (Inl (GeneratorHandlerError (''Invalid generator in: '' @ p)), st1)))"

definition collectGenerators :: "string list \<Rightarrow> state \<Rightarrow> (error + generator list) \<times> state" where
  "collectGenerators ps st =
     (if ps = [] then (Inl (GeneratorHandlerError ''Ops! No generator found''), st)
      else collect_loop ps [] st)"

subsection \<open>load\<close>

definition load :: "state \<Rightarrow> (error + unit) \<times> state" where
  "load st =
     (case raw_select st of
        (Inr rs, st1) \<Rightarrow> (Inr (), st1\<lparr>rows := rs\<rparr>)
      | (Inl e, st1) \<Rightarrow>
          (if \<not> isQueryError e then (Inl e, st1)
           else Generator_create st1))"

subsection \<open>createTables and dropTables\<close>

text \<open>
  What stops the loop at one generator, if anything: a method that throws or whose
  promise rejects stops it with that error, a method that returns no promise
  (\<open>!isPromise(promise)\<close>) with \<^verbatim>\<open>Invalid create method in: \<close> (or \<open>drop\<close>) and the class name.
\<close>

fun failure :: "string \<Rightarrow> generator \<Rightarrow> outcome \<Rightarrow> error option" where
  "failure what g Resolves = None"
| "failure what g (Rejects e) = Some e"
| "failure what g (Throws e) = Some e"
| "failure what g Returns =
     Some (GeneratorHandlerError (''Invalid '' @ what @ '' method in: '' @ gen_name g))"

text \<open>
  The inner \<open>create(index)\<close>, over the generators paired with their paths
  (\<open>collectGenerators\<close> returns one generator for each path, in order). It returns the
  error that stopped it, if one did, and the paths pushed on \<open>created\<close>.
\<close>

fun create_loop :: "(string \<times> generator) list \<Rightarrow> string list \<Rightarrow> state \<Rightarrow> (error option \<times> string list) \<times> state" where
  "create_loop [] created st = ((None, created), st)"
| "create_loop ((p, g) # rest) created st =
     (let st1 = emit (Create p) st
      in case failure ''create'' g (gen_create g) of
           Some e \<Rightarrow> ((Some e, created), st1)
         | None \<Rightarrow> create_loop rest (created @ [p]) st1)"

definition count_message :: "string list \<Rightarrow> string list \<Rightarrow> string \<Rightarrow> string" where
  "count_message done ps what =
     toString (length done) @ ''/'' @ toString (length ps) @ '' table'' @ sfx ps @ '' '' @ what"

definition createTables :: "string list \<Rightarrow> nat \<Rightarrow> state \<Rightarrow> (error + string) \<times> state" where
  "createTables ps b st =
     (case collectGenerators ps st of
        (Inl e, st1) \<Rightarrow> (Inl e, st1)
      | (Inr generators, st1) \<Rightarrow>
          (case create_loop (zip ps generators) [] st1 of
             ((None, created), st2) \<Rightarrow>
               (case add created b st2 of
                  (Inl e, st3) \<Rightarrow> (Inl e, st3)
                | (Inr u, st3) \<Rightarrow> (Inr (count_message created ps ''created''), st3))
           | ((Some e, created), st2) \<Rightarrow>
               (let msg = count_message created ps ''created'' @ '': '' @ message e
                in if length created > 0 then
                     (case add created b st2 of
                        (Inl e', st3) \<Rightarrow> (Inl e', st3)
                      | (Inr u, st3) \<Rightarrow> (Inl (GeneratorHandlerError msg), st3))
                   else (Inl (GeneratorHandlerError msg), st2))))"

fun drop_loop :: "(string \<times> generator) list \<Rightarrow> string list \<Rightarrow> state \<Rightarrow> (error option \<times> string list) \<times> state" where
  "drop_loop [] dropped st = ((None, dropped), st)"
| "drop_loop ((p, g) # rest) dropped st =
     (let st1 = emit (Drop p) st
      in case failure ''drop'' g (gen_drop g) of
           Some e \<Rightarrow> ((Some e, dropped), st1)
         | None \<Rightarrow> drop_loop rest (dropped @ [p]) st1)"

definition dropTables :: "string list \<Rightarrow> state \<Rightarrow> (error + string) \<times> state" where
  "dropTables ps st =
     (case collectGenerators ps st of
        (Inl e, st1) \<Rightarrow> (Inl e, st1)
      | (Inr generators, st1) \<Rightarrow>
          (case drop_loop (zip ps generators) [] st1 of
             ((None, dropped), st2) \<Rightarrow>
               (case remove_rows dropped st2 of
                  (Inl e, st3) \<Rightarrow> (Inl e, st3)
                | (Inr u, st3) \<Rightarrow> (Inr (count_message dropped ps ''dropped''), st3))
           | ((Some e, dropped), st2) \<Rightarrow>
               (let msg = count_message dropped ps ''dropped'' @ '': '' @ message e
                in if length dropped > 0 then
                     (case remove_rows dropped st2 of
                        (Inl e', st3) \<Rightarrow> (Inl e', st3)
                      | (Inr u, st3) \<Rightarrow> (Inl (GeneratorHandlerError msg), st3))
                   else (Inl (GeneratorHandlerError msg), st2))))"

subsection \<open>Planning\<close>

definition beReadyToGenerate :: "string \<Rightarrow> state \<Rightarrow> (error + Gen) \<times> state" where
  "beReadyToGenerate dir st =
     (case load st of
        (Inl e, st1) \<Rightarrow> (Inl e, st1)
      | (Inr u, st1) \<Rightarrow>
          (case collectPaths dir False st1 of
             (Inl e, st2) \<Rightarrow> (Inl e, st2)
           | (Inr allPaths, st2) \<Rightarrow>
               (let batches = map row_batch (rows st2);
                    b = lastBatch batches + 1;
                    DBPaths = map row_path (rows st2);
                    ps = filter (\<lambda>p. p \<notin> set DBPaths) allPaths
                in if ps = [] then (Inl (GeneratorHandlerError ''Nothing to generate''), st2)
                   else (Inr \<lparr>paths = ps, batch = b\<rparr>, st2))))"

definition beReadyToRollback :: "state \<Rightarrow> (error + string list) \<times> state" where
  "beReadyToRollback st =
     (case load st of
        (Inl e, st1) \<Rightarrow> (Inl e, st1)
      | (Inr u, st1) \<Rightarrow>
          (let b = lastBatch (map row_batch (rows st1));
               ps = rev (map row_path (filter (\<lambda>g. row_batch g = b) (rows st1)))
           in if ps = [] then (Inl (GeneratorHandlerError ''Nothing to rollback''), st1)
              else (Inr ps, st1)))"

subsection \<open>generate and rollback\<close>

definition generate :: "string \<Rightarrow> state \<Rightarrow> (error + string) \<times> state" where
  "generate dir st =
     (if \<not> isFullStr dir then (Inl (GeneratorHandlerError (''Invalid path: '' @ dir)), st)
      else case beReadyToGenerate dir st of
             (Inl e, st1) \<Rightarrow> (Inl e, st1)
           | (Inr plan, st1) \<Rightarrow> createTables (paths plan) (batch plan) st1)"

definition rollback :: "state \<Rightarrow> (error + string) \<times> state" where
  "rollback st =
     (case beReadyToRollback st of
        (Inl e, st1) \<Rightarrow> (Inl e, st1)
      | (Inr ps, st1) \<Rightarrow> dropTables ps st1)"

subsection \<open>group and rename\<close>

text \<open>
  \<^verbatim>\<open>path.match(/([0-9]+)_generate_[a-z][a-z0-9]*(?:_[a-z][a-z0-9]*)*_table/)[1]\<close>.
  The pattern is tried at each position from the left; at one position the greedy
  \<open>[0-9]+\<close> takes the longest run after which the rest of the pattern matches.
\<close>

definition longest_number :: "(string \<Rightarrow> bool) \<Rightarrow> string \<Rightarrow> nat option" where
  "longest_number rest s =
     find (\<lambda>k. matches (one_or_more digit) (take k s) \<and> rest (drop k s)) (rev [1 ..< Suc (length s)])"

definition number_at :: "string \<Rightarrow> string option" where
  "number_at s = map_option (\<lambda>k. take k s) (longest_number (matches_prefix generate_table) s)"

fun match_number :: "string \<Rightarrow> string option" where
  "match_number [] = None"
| "match_number (c # cs) =
     (case number_at (c # cs) of
        Some number \<Rightarrow> Some number
      | None \<Rightarrow> match_number cs)"

text \<open>\<^verbatim>\<open>if (!storage[number]) storage[number] = []; storage[number].push(path);\<close>\<close>

fun push :: "string \<Rightarrow> string \<Rightarrow> (string \<times> string list) list \<Rightarrow> (string \<times> string list) list" where
  "push number p [] = [(number, [p])]"
| "push number p ((k, ps) # storage) =
     (if k = number then (k, ps @ [p]) # storage else (k, ps) # push number p storage)"

text \<open>A path the pattern does not match makes \<open>match\<close> return \<open>null\<close>, and \<open>null[1]\<close> throws.\<close>

fun group_loop :: "string list \<Rightarrow> (string \<times> string list) list \<Rightarrow> error + (string \<times> string list) list" where
  "group_loop [] storage = Inr storage"
| "group_loop (p # ps) storage =
     (case match_number p of
        None \<Rightarrow> Inl (PlainError ''TypeError: Cannot read properties of null'')
      | Some number \<Rightarrow> group_loop ps (push number p storage))"

text \<open>
  \<open>Object.keys\<close>: the keys that are array indices (canonical decimal numbers below
  \<open>2 ^ 32 - 1\<close>) in ascending order, then the other keys in the order they were added.
\<close>

definition is_index :: "string \<Rightarrow> bool" where
  "is_index k = (toString (parseInt k) = k \<and> int (parseInt k) < 4294967295)"

definition object_keys :: "(string \<times> 'a) list \<Rightarrow> string list" where
  "object_keys storage =
     sort_key parseInt (filter is_index (map fst storage)) @
     filter (\<lambda>k. \<not> is_index k) (map fst storage)"

definition lookup :: "(string \<times> string list) list \<Rightarrow> string \<Rightarrow> string list" where
  "lookup storage k = (case map_of storage k of Some ps \<Rightarrow> ps | None \<Rightarrow> [])"

text \<open>
  \<^verbatim>\<open>function group(paths)\<close>, named \<open>group_paths\<close> here (\<open>group\<close> is a constant of HOL).
  \<^verbatim>\<open>.sort((a, b) => parseInt(a) - parseInt(b))\<close> is a stable sort.
\<close>

definition group_paths :: "string list \<Rightarrow> error + string list list" where
  "group_paths ps =
     (case group_loop ps [] of
        Inl e \<Rightarrow> Inl e
      | Inr storage \<Rightarrow> Inr (map (lookup storage) (sort_key parseInt (object_keys storage))))"

text \<open>\<^verbatim>\<open>basename(path).replace(/^[0-9]+/, '')\<close>\<close>

definition strip_number :: "string \<Rightarrow> string" where
  "strip_number name =
     (case longest_number (\<lambda>rest. True) name of
        Some k \<Rightarrow> drop k name
      | None \<Rightarrow> name)"

definition new_path :: "nat \<Rightarrow> string \<Rightarrow> string" where
  "new_path index p =
     (let newNumber = padStart2 (toString (index + 1));
          newName = newNumber @ strip_number (basename p)
      in dirname p @ ''/'' @ newName)"

text \<open>The \<open>fs.rename\<close> calls of \<open>rename\<close>, in the order they are made.\<close>

definition renames :: "string list list \<Rightarrow> (string \<times> string) list" where
  "renames groups =
     concat (map (\<lambda>(index, grp). map (\<lambda>p. (p, new_path index p)) grp) (enumerate 0 groups))"

definition rename :: "string list list \<Rightarrow> state \<Rightarrow> (error + unit) \<times> state" where
  "rename groups st =
     (if groups = [] then (Inr (), st)
      else case all_calls (map (\<lambda>(old, new). fs_rename old new) (renames groups)) st of
             (Inl e, st1) \<Rightarrow> (Inl (GeneratorHandlerError (message e)), st1)
           | (Inr u, st1) \<Rightarrow> (Inr (), st1))"

definition unlink :: "string list \<Rightarrow> state \<Rightarrow> (error + unit) \<times> state" where
  "unlink ps st = all_calls (map fs_unlink ps) st"

subsection \<open>reset\<close>

text \<open>
  The inner \<open>exec(index)\<close>: a table that cannot be dropped is passed over; after the last
  one the ledger's table is dropped, and a failure of that is passed over too.
\<close>

fun exec_loop :: "generator list \<Rightarrow> nat \<Rightarrow> state \<Rightarrow> nat \<times> state" where
  "exec_loop [] dropped st = (dropped, snd (raw_drop ''generators'' st))"
| "exec_loop (g # gs) dropped st =
     (case raw_drop (gen_table g) st of
        (Inr u, st1) \<Rightarrow> exec_loop gs (dropped + 1) st1
      | (Inl e, st1) \<Rightarrow> exec_loop gs dropped st1)"

definition reset_dropTables :: "string list \<Rightarrow> state \<Rightarrow> (error + string) \<times> state" where
  "reset_dropTables ps st =
     (if ps = [] then (Inl (GeneratorHandlerError ''Nothing to reset''), st)
      else case collectGenerators ps st of
             (Inl e, st1) \<Rightarrow> (Inl e, st1)
           | (Inr generators, st1) \<Rightarrow>
               (case exec_loop generators 0 st1 of
                  (dropped, st2) \<Rightarrow>
                    (Inr (toString dropped @ ''/'' @ toString (length ps) @ '' table'' @ sfx ps
                          @ '' dropped''), st2)))"

definition reset :: "string \<Rightarrow> state \<Rightarrow> (error + string) \<times> state" where
  "reset dir st =
     (if \<not> isFullStr dir then (Inl (GeneratorHandlerError (''Invalid path: '' @ dir)), st)
      else case collectPaths dir False st of
             (Inl e, st1) \<Rightarrow> (Inl e, st1)
           | (Inr ps, st1) \<Rightarrow> reset_dropTables (rev ps) st1)"

subsection \<open>remove\<close>

text \<open>
  \<^verbatim>\<open>new RegExp(`[0-9]+_generate_${name}_table\.(ts|js|js\.map|d\.ts)$`)\<close>: in a
  template literal \<open>\.\<close> is a plain dot, so each dot of the pattern matches any character.
  \<open>name\<close> has passed \<open>isSnakeCase\<close> and stands for itself.
\<close>

definition generator_of :: "string \<Rightarrow> rx" where
  "generator_of name =
     Seq (one_or_more digit) (Seq (lit (''_generate_'' @ name @ ''_table'')) (Seq Dot
       (Alt (lit ''ts'') (Alt (lit ''js'')
         (Alt (Seq (lit ''js'') (Seq Dot (lit ''map''))) (Seq (lit ''d'') (Seq Dot (lit ''ts''))))))))"

text \<open>\<^verbatim>\<open>regex.test(path)\<close>\<close>

definition is_generator_of :: "string \<Rightarrow> string \<Rightarrow> bool" where
  "is_generator_of name p = matches_suffix (generator_of name) p"

definition removed_message :: "string list \<Rightarrow> string" where
  "removed_message unlinkPaths =
     toString (length unlinkPaths) @ '' generator file'' @ sfx unlinkPaths @ '' removed in:''
       @ concat (map (\<lambda>p. CHR 0x0A # p) unlinkPaths)"

text \<open>The inner \<open>reset()\<close> of \<open>remove\<close>: nothing is reset when the first path is a TypeScript file.\<close>

definition remove_reset :: "string \<Rightarrow> string list \<Rightarrow> state \<Rightarrow> (error + unit) \<times> state" where
  "remove_reset dir ps st =
     (case ps of
        [] \<Rightarrow> (Inl (PlainError ''TypeError: path must be a string''), st)
      | first # others \<Rightarrow>
          (if isTsFile (basename first) then (Inr (), st)
           else case reset dir st of
                  (Inl e, st1) \<Rightarrow> (Inl e, st1)
                | (Inr msg, st1) \<Rightarrow> (Inr (), st1)))"

definition remove :: "string \<Rightarrow> string \<Rightarrow> state \<Rightarrow> (error + string) \<times> state" where
  "remove name dir st =
     (if \<not> isSnakeCase name then
        (Inl (GeneratorHandlerError (''Invalid table name: '' @ name)), st)
      else if \<not> isFullStr dir then
        (Inl (GeneratorHandlerError (''Invalid path: '' @ dir)), st)
      else case collectPaths dir True st of
             (Inl e, st1) \<Rightarrow> (Inl e, st1)
           | (Inr ps, st1) \<Rightarrow>
               (let unlinkPaths = filter (is_generator_of name) ps
                in case group_paths (filter (\<lambda>p. \<not> is_generator_of name p) ps) of
                     Inl e \<Rightarrow> (Inl e, st1)
                   | Inr renamePaths \<Rightarrow>
                       (if length unlinkPaths = 0 then
                          (Inl (GeneratorHandlerError (''No generator found for table: '' @ name)),
                           st1)
                        else case remove_reset dir ps st1 of
                               (Inl e, st2) \<Rightarrow> (Inl e, st2)
                             | (Inr u, st2) \<Rightarrow>
                                 (case unlink unlinkPaths st2 of
                                    (Inl e, st3) \<Rightarrow> (Inl e, st3)
                                  | (Inr u, st3) \<Rightarrow>
                                      (case rename renamePaths st3 of
                                         (Inl e, st4) \<Rightarrow> (Inl e, st4)
                                       | (Inr u, st4) \<Rightarrow>
                                           (Inr (removed_message unlinkPaths), st4))))))"

subsection \<open>A sequence of applies\<close>



subsection \<open>Reading the trace\<close>

text \<open>The calls that change files: \<open>fs.unlink\<close> and \<open>fs.rename\<close>.\<close>

fun is_fs_write :: "event \<Rightarrow> bool" where
  "is_fs_write (Unlink p) = True"
| "is_fs_write (Rename old new) = True"
| "is_fs_write ev = False"

text \<open>The statement \<open>reset\<close> sends for the table of the generator a path loads.\<close>

definition drop_statement :: "state \<Rightarrow> string \<Rightarrow> event" where
  "drop_statement st p = Raw (''DROP TABLE '' @ gen_table (the (generator_at st p)) @ '';'')"

section \<open>Example worlds\<close>

text \<open>
  A directory \<open>/g\<close> of generators and the modules behind its files, used to run the
  model on concrete inputs.
\<close>

definition users_js :: string where
  "users_js = ''/g/01_generate_users_table.js''"

definition profiles_js :: string where
  "profiles_js = ''/g/02_generate_profiles_table.js''"

definition orders_js :: string where
  "orders_js = ''/g/03_generate_orders_table.js''"

text \<open>A well-named file whose module cannot be loaded.\<close>

definition tags_js :: string where
  "tags_js = ''/g/04_generate_tags_table.js''"

text \<open>A TypeScript generator, and the source map beside a compiled one.\<close>

definition users_ts :: string where
  "users_ts = ''/g/01_generate_users_table.ts''"

definition users_js_map :: string where
  "users_js_map = ''/g/01_generate_users_table.js.map''"

definition gen :: "string \<Rightarrow> outcome \<Rightarrow> outcome \<Rightarrow> generator" where
  "gen table c d = \<lparr>gen_name = ''G'', gen_table = table, gen_create = c, gen_drop = d\<rparr>"

text \<open>
  The three modules: \<open>users\<close> and \<open>orders\<close> export their generator by default, \<open>profiles\<close>
  by name; \<open>c\<close> and \<open>d\<close> are what \<open>create()\<close> and \<open>drop()\<close> of \<open>profiles\<close> do.
\<close>

definition example_modules :: "outcome \<Rightarrow> outcome \<Rightarrow> string \<Rightarrow> string + jsvalue" where
  "example_modules c d p =
     (if p = users_js then Inr (Instance (gen ''users'' Resolves Resolves))
      else if p = profiles_js then Inr (Obj [(''ProfilesTableGenerator'', Instance (gen ''profiles'' c d))])
      else if p = orders_js then Inr (Instance (gen ''orders'' Resolves Resolves))
      else Inl ''Cannot find module'')"

definition world :: "row list option \<Rightarrow> string list \<Rightarrow> (string \<Rightarrow> string + jsvalue) \<Rightarrow> state" where
  "world table files mods =
     \<lparr>rows = [], generators_table = table, next_id = 10, disk = files, modules = mods,
      faults = [], trace = []\<rparr>"

text \<open>A ledger with one row of batch 1 and two rows of batch 2.\<close>

definition three_rows :: "row list" where
  "three_rows =
     [\<lparr>row_id = 1, row_batch = 1, row_path = users_js\<rparr>,
      \<lparr>row_id = 2, row_batch = 2, row_path = profiles_js\<rparr>,
      \<lparr>row_id = 3, row_batch = 2, row_path = orders_js\<rparr>]"

text \<open>
  A generators directory whose own name has the shape of a generator's name, with
  three generators in it; every module loads.
\<close>

definition nested :: "string \<Rightarrow> string" where
  "nested name = ''/d/1_generate_x_table/'' @ name"

definition nested_world :: state where
  "nested_world = world (Some [])
     [nested ''01_generate_users_table.js'', nested ''02_generate_profiles_table.js'',
      nested ''03_generate_orders_table.js'']
     (\<lambda>p. Inr (Instance (gen ''t'' Resolves Resolves)))"

text \<open>
  One handler used three times in a row on \<open>/g\<close>: \<open>generate\<close>, \<open>rollback\<close>, \<open>reset\<close>.
  Its cache holds the rows that \<open>rollback\<close> loaded, and the table \<open>generators\<close> is gone.
\<close>

definition reused_handler :: state where
  "reused_handler = snd (reset ''/g'' (snd (rollback (snd (generate ''/g''
     (world None [users_js, profiles_js] (example_modules Resolves Resolves)))))))"

section \<open>Properties\<close>

subsection \<open>The store and the loaders without faults\<close>

lemma foldl_best:
  "foldl (\<lambda>best b. if b > best then b else best) a bs = Max (set (a # bs))"
proof -
  have "foldl (\<lambda>best b. if b > best then b else best) a bs = fold max bs a"
    by (induction bs arbitrary: a) (auto simp: max_def)
  then show ?thesis by (simp only: Max.set_eq_fold)
qed

lemma lastBatch_Max:
  "lastBatch bs = (if bs = [] then 0 else Max (set bs))"
proof (cases bs)
  case Nil
  then show ?thesis by (simp add: lastBatch_def)
next
  case (Cons b bs')
  have "Max (set (0 # bs)) = Max (set bs)"
    using Cons by (simp add: max_def)
  then show ?thesis
    using Cons by (simp add: lastBatch_def foldl_best del: foldl.simps set_simps)
qed

lemma call_no_fault:
  "faults st = [] \<Longrightarrow> call ev st = (None, st\<lparr>trace := trace st @ [ev]\<rparr>)"
  by (simp add: call_def take_fault_def emit_def)

lemma load_present:
  "faults st = [] \<Longrightarrow> generators_table st = Some rs \<Longrightarrow>
   load st = (Inr (), st\<lparr>rows := rs, trace := trace st @ [Raw ''SELECT * FROM generators;'']\<rparr>)"
  by (simp add: load_def raw_select_def call_no_fault)

lemma load_absent:
  "faults st = [] \<Longrightarrow> generators_table st = None \<Longrightarrow>
   load st = (Inr (), st\<lparr>generators_table := Some [], next_id := 1,
     trace := trace st @ [Raw ''SELECT * FROM generators;'',
                          Schema ''generators'' Generator_columns]\<rparr>)"
  by (simp add: load_def raw_select_def call_no_fault no_table_def Generator_create_def)

text \<open>
  With no fault, a load leaves in the cache the rows of the ledger, provided the handler
  is new (its cache is empty) or the table exists.
\<close>

lemma load_in_sync:
  assumes "faults st = []" and "generators_table st = None \<Longrightarrow> rows st = []"
  shows "fst (load st) = Inr ()" and "rows (snd (load st)) = ledger_rows st"
    and "faults (snd (load st)) = []" and "disk (snd (load st)) = disk st"
    and "modules (snd (load st)) = modules st"
    and "generators_table (snd (load st)) = Some (ledger_rows st)"
  using assms
  by (cases "generators_table st"; simp add: load_present load_absent ledger_rows_def)+

lemma collectPaths_no_fault:
  assumes "faults st = []"
  shows "collectPaths dir mapped st =
    (let files = (if mapped then listing dir st
                  else filter (\<lambda>name. \<not> isMappedFile name) (listing dir st))
     in case invalid_file mapped files of
          Some file \<Rightarrow> Inl (GeneratorHandlerError (''Invalid generator file: '' @ file))
        | None \<Rightarrow> Inr (map (resolvePath dir) files),
     st\<lparr>trace := trace st @ [Readdir dir]\<rparr>)"
  using assms
  by (auto simp: collectPaths_def readdir_def call_no_fault listing_def invalid_file_def Let_def
      split: option.splits)

subsection \<open>Planning\<close>





subsection \<open>The ledger's loader\<close>

lemma call_cases:
  "call ev st = (next_fault st, st\<lparr>faults := tl (faults st), trace := trace st @ [ev]\<rparr>)"
  by (cases "faults st") (simp_all add: call_def take_fault_def emit_def next_fault_def)

text \<open>
  Claim C6, as the code has it. \<open>load\<close> sends \<open>SELECT * FROM generators;\<close>; when the
  store answers with rows it keeps them in \<open>rows\<close>. When the statement fails with a
  \<open>QueryError\<close> (a scheduled one, or the table does not exist) it next creates the table
  \<open>generators\<close> with the columns \<open>id\<close> (primary key), \<open>path\<close> (text, not null) and
  \<open>batch\<close> (small integer, unsigned, not null), and does not assign \<open>rows\<close>: the cache
  is left as it was, which is empty for a handler just constructed and not otherwise.
  Any other failure is returned as it is, with nothing sent after the \<open>SELECT\<close> and the
  state otherwise unchanged.
\<close>

theorem load_cases:
  "(next_fault st = None \<and> generators_table st = Some rs \<longrightarrow>
      load st = (Inr (), st\<lparr>faults := tl (faults st),
                             trace := trace st @ [Raw ''SELECT * FROM generators;''],
                             rows := rs\<rparr>)) \<and>
   (next_fault st = Some (QueryError m) \<or> next_fault st = None \<and> generators_table st = None \<longrightarrow>
      trace (snd (load st)) = trace st @
        [Raw ''SELECT * FROM generators;'',
         Schema ''generators''
           [(''id'', [Pk]), (''path'', [Text, NotNull]),
            (''batch'', [SmallInt, Unsigned, NotNull])]] \<and>
      rows (snd (load st)) = rows st \<and>
      rows (snd (load (new_handler st))) = []) \<and>
   (faults st = [] \<and> generators_table st = None \<longrightarrow>
      fst (load st) = Inr () \<and> generators_table (snd (load st)) = Some []) \<and>
   (next_fault st = Some e \<and> \<not> isQueryError e \<longrightarrow>
      load st = (Inl e, st\<lparr>faults := tl (faults st),
                            trace := trace st @ [Raw ''SELECT * FROM generators;'']\<rparr>))"
proof (intro conjI impI)
  assume "next_fault st = None \<and> generators_table st = Some rs"
  then show "load st = (Inr (), st\<lparr>faults := tl (faults st),
      trace := trace st @ [Raw ''SELECT * FROM generators;''], rows := rs\<rparr>)"
    by (simp add: load_def raw_select_def call_cases)
next
  assume a: "next_fault st = Some (QueryError m)
      \<or> next_fault st = None \<and> generators_table st = None"
  have n: "next_fault (new_handler st) = next_fault st"
    "generators_table (new_handler st) = generators_table st"
    "trace (new_handler st) = trace st"
    by (simp_all add: new_handler_def next_fault_def)
  have g: "\<And>s. trace (snd (Generator_create s))
        = trace s @ [Schema ''generators'' Generator_columns]
      \<and> rows (snd (Generator_create s)) = rows s"
    by (simp add: Generator_create_def call_cases split: option.splits)
  have sel: "\<And>s. next_fault s = Some (QueryError m)
        \<or> next_fault s = None \<and> generators_table s = None
     \<Longrightarrow> load s = Generator_create
           (s\<lparr>faults := tl (faults s),
              trace := trace s @ [Raw ''SELECT * FROM generators;'']\<rparr>)"
    by (auto simp: load_def raw_select_def call_cases no_table_def)
  show "trace (snd (load st)) = trace st @
        [Raw ''SELECT * FROM generators;'',
         Schema ''generators''
           [(''id'', [Pk]), (''path'', [Text, NotNull]),
            (''batch'', [SmallInt, Unsigned, NotNull])]]"
    using sel [OF a] g by (simp add: Generator_columns_def)
  show "rows (snd (load st)) = rows st" using sel [OF a] g by simp
  show "rows (snd (load (new_handler st))) = []"
    using sel [of "new_handler st"] a n g by (simp add: new_handler_def)
next
  assume "faults st = [] \<and> generators_table st = None"
  then show "fst (load st) = Inr ()" "generators_table (snd (load st)) = Some []"
    by (simp_all add: load_absent)
next
  assume "next_fault st = Some e \<and> \<not> isQueryError e"
  then show "load st = (Inl e, st\<lparr>faults := tl (faults st),
      trace := trace st @ [Raw ''SELECT * FROM generators;'']\<rparr>)"
    by (simp add: load_def raw_select_def call_cases)
qed

theorem load_cases_witness:
  "rows (snd (load (world (Some three_rows) [] (example_modules Resolves Resolves))))
     = three_rows \<and>
   trace (snd (load (world None [] (example_modules Resolves Resolves)))) =
     [Raw ''SELECT * FROM generators;'',
      Schema ''generators''
        [(''id'', [Pk]), (''path'', [Text, NotNull]),
         (''batch'', [SmallInt, Unsigned, NotNull])]] \<and>
   rows (snd (load (world None [] (example_modules Resolves Resolves)))) = [] \<and>
   generators_table (snd (load (world None [] (example_modules Resolves Resolves)))) = Some [] \<and>
   fst (load ((world (Some three_rows) [] (example_modules Resolves Resolves))
               \<lparr>faults := [Some (PlainError ''connection lost'')]\<rparr>))
     = Inl (PlainError ''connection lost'') \<and>
   trace (snd (load ((world (Some three_rows) [] (example_modules Resolves Resolves))
               \<lparr>faults := [Some (PlainError ''connection lost'')]\<rparr>)))
     = [Raw ''SELECT * FROM generators;'']"
proof -
  let ?a = "world (Some three_rows) [] (example_modules Resolves Resolves)"
  let ?b = "world None [] (example_modules Resolves Resolves)"
  let ?c = "?a\<lparr>faults := [Some (PlainError ''connection lost'')]\<rparr>"
  have a: "next_fault ?a = None \<and> generators_table ?a = Some three_rows"
    by (simp add: world_def next_fault_def)
  have b: "next_fault ?b = None \<and> generators_table ?b = None" "faults ?b = []"
    "rows ?b = []" "trace ?b = []"
    by (simp_all add: world_def next_fault_def)
  have c: "next_fault ?c = Some (PlainError ''connection lost'')
      \<and> \<not> isQueryError (PlainError ''connection lost'')" "trace ?c = []"
    by (simp_all add: world_def next_fault_def)
  show ?thesis
    using load_cases [of ?a three_rows "[]" "PlainError ''x''"]
      load_cases [of ?b "[]" "[]" "PlainError ''x''"]
      load_cases [of ?c "[]" "[]" "PlainError ''connection lost''"] a b c
    by simp
qed

text \<open>
  The counterexample to claim C6 as stated: the handler that has run \<open>generate\<close>,
  \<open>rollback\<close> and \<open>reset\<close> finds no table, creates it, and still holds the two rows
  that \<open>rollback\<close> loaded; its cache is not empty, and the next \<open>generate\<close> finds
  nothing to generate although the ledger has no row.
\<close>

theorem cache_kept_on_provisioning:
  "generators_table reused_handler = None \<and>
   fst (load reused_handler) = Inr () \<and>
   trace (snd (load reused_handler)) = trace reused_handler @
     [Raw ''SELECT * FROM generators;'',
      Schema ''generators''
        [(''id'', [Pk]), (''path'', [Text, NotNull]),
         (''batch'', [SmallInt, Unsigned, NotNull])]] \<and>
   generators_table (snd (load reused_handler)) = Some [] \<and>
   map row_path (rows (snd (load reused_handler))) = [users_js, profiles_js] \<and>
   fst (generate ''/g'' reused_handler) = Inl (GeneratorHandlerError ''Nothing to generate'')"
  by code_simp

subsection \<open>createTables and dropTables\<close>

lemma generator_at_emit [simp]: "generator_at (emit ev st) p = generator_at st p"
  by (simp add: generator_at_def emit_def)

lemma collect_loop_ok:
  "\<forall>p \<in> set ps. generator_at st p \<noteq> None \<Longrightarrow>
   collect_loop ps gens st =
     (Inr (gens @ map (\<lambda>p. the (generator_at st p)) ps), st\<lparr>trace := trace st @ map Require ps\<rparr>)"
proof (induction ps arbitrary: gens st)
  case Nil
  show ?case by simp
next
  case (Cons p ps)
  from Cons.prems obtain g where g: "generator_at st p = Some g" by auto
  then obtain m where m: "modules st p = Inr m" "exported m = Some g"
    by (auto simp: generator_at_def split: sum.splits)
  have "\<forall>q \<in> set ps. generator_at (emit (Require p) st) q \<noteq> None"
    using Cons.prems by simp
  from Cons.IH [OF this, of "gens @ [g]"] show ?case
    using m g by (simp add: Let_def emit_def generator_at_def)
qed

lemma collectGenerators_ok:
  "ps \<noteq> [] \<Longrightarrow> \<forall>p \<in> set ps. generator_at st p \<noteq> None \<Longrightarrow>
   collectGenerators ps st =
     (Inr (map (\<lambda>p. the (generator_at st p)) ps), st\<lparr>trace := trace st @ map Require ps\<rparr>)"
  by (simp add: collectGenerators_def collect_loop_ok)

lemma create_loop_all:
  "\<forall>p \<in> set ps. gen_create (G p) = Resolves \<Longrightarrow>
   create_loop (map (\<lambda>p. (p, G p)) ps) created st =
     ((None, created @ ps), st\<lparr>trace := trace st @ map Create ps\<rparr>)"
  by (induction ps arbitrary: created st) (auto simp: emit_def Let_def)

lemma create_loop_stop:
  "\<forall>p \<in> set pre. gen_create (G p) = Resolves \<Longrightarrow>
   failure ''create'' (G p) (gen_create (G p)) = Some cause \<Longrightarrow>
   create_loop (map (\<lambda>p. (p, G p)) (pre @ p # post)) created st =
     ((Some cause, created @ pre), st\<lparr>trace := trace st @ map Create (pre @ [p])\<rparr>)"
  by (induction pre arbitrary: created st) (auto simp: emit_def Let_def)

lemma drop_loop_all:
  "\<forall>p \<in> set ps. gen_drop (G p) = Resolves \<Longrightarrow>
   drop_loop (map (\<lambda>p. (p, G p)) ps) dropped st =
     ((None, dropped @ ps), st\<lparr>trace := trace st @ map Drop ps\<rparr>)"
  by (induction ps arbitrary: dropped st) (auto simp: emit_def Let_def)

lemma drop_loop_stop:
  "\<forall>p \<in> set pre. gen_drop (G p) = Resolves \<Longrightarrow>
   failure ''drop'' (G p) (gen_drop (G p)) = Some cause \<Longrightarrow>
   drop_loop (map (\<lambda>p. (p, G p)) (pre @ p # post)) dropped st =
     ((Some cause, dropped @ pre), st\<lparr>trace := trace st @ map Drop (pre @ [p])\<rparr>)"
  by (induction pre arbitrary: dropped st) (auto simp: emit_def Let_def)

lemma zip_map_self: "zip ps (map G ps) = map (\<lambda>p. (p, G p)) ps"
  by (induction ps) auto

lemma split_at:
  assumes "i < length ps" and "\<forall>j < i. P (ps ! j)"
  shows "ps = take i ps @ ps ! i # drop (Suc i) ps" and "\<forall>p \<in> set (take i ps). P p"
    and "take i ps @ [ps ! i] = take (Suc i) ps"
proof -
  show "ps = take i ps @ ps ! i # drop (Suc i) ps" using assms(1) by (rule id_take_nth_drop)
  show "\<forall>p \<in> set (take i ps). P p"
    using assms by (auto simp: in_set_conv_nth)
  show "take i ps @ [ps ! i] = take (Suc i) ps"
    using assms(1) by (simp add: take_Suc_conv_app_nth)
qed

lemma add_cases:
  "add ps b st =
    (let rs = map (\<lambda>p. (p, b)) ps;
         st1 = st\<lparr>faults := tl (faults st), trace := trace st @ [insert_event rs]\<rparr>
     in case next_fault st of
          Some e \<Rightarrow> (Inl e, st1)
        | None \<Rightarrow>
            (case generators_table st of
               None \<Rightarrow> (Inl no_table, st1)
             | Some old \<Rightarrow>
                 (Inr (), st1\<lparr>generators_table := Some (old @ new_rows (next_id st) rs),
                               next_id := next_id st + length ps\<rparr>)))"
  by (simp add: add_def insert_exec_def call_cases Let_def split: option.splits)

lemma remove_rows_cases:
  "remove_rows ps st =
    (let st1 = st\<lparr>faults := tl (faults st), trace := trace st @ [Delete ''generators'' ps]\<rparr>
     in case next_fault st of
          Some e \<Rightarrow> (Inl e, st1)
        | None \<Rightarrow>
            (case generators_table st of
               None \<Rightarrow> (Inl no_table, st1)
             | Some old \<Rightarrow>
                 (Inr (), st1\<lparr>generators_table :=
                                 Some (filter (\<lambda>r. row_path r \<notin> set ps) old)\<rparr>)))"
  by (simp add: remove_rows_def call_cases Let_def split: option.splits)

text \<open>Where \<open>createTables\<close> ends when the generator at index \<open>i\<close> is the first not to resolve.\<close>

lemma createTables_stop:
  assumes "\<forall>p \<in> set ps. generator_at st p \<noteq> None" and "i < length ps"
    and "\<forall>j < i. gen_create (the (generator_at st (ps ! j))) = Resolves"
    and "failure ''create'' (the (generator_at st (ps ! i)))
           (gen_create (the (generator_at st (ps ! i)))) = Some cause"
  shows "createTables ps b st =
    (let st2 = st\<lparr>trace := trace st @ map Require ps @ map Create (take (Suc i) ps)\<rparr>;
         failed = Inl (GeneratorHandlerError
                    (count_message (take i ps) ps ''created'' @ '': '' @ message cause))
     in if i = 0 then (failed, st2)
        else case add (take i ps) b st2 of
               (Inl e, st3) \<Rightarrow> (Inl e, st3)
             | (Inr u, st3) \<Rightarrow> (failed, st3))"
proof -
  let ?G = "\<lambda>p. the (generator_at st p)"
  let ?st1 = "st\<lparr>trace := trace st @ map Require ps\<rparr>"
  have ne: "ps \<noteq> []" using assms(2) by auto
  note sp = split_at [OF assms(2), of "\<lambda>p. gen_create (?G p) = Resolves", OF assms(3)]
  have "create_loop (map (\<lambda>p. (p, ?G p)) (take i ps @ ps ! i # drop (Suc i) ps)) [] ?st1 =
     ((Some cause, [] @ take i ps), ?st1\<lparr>trace := trace ?st1 @ map Create (take i ps @ [ps ! i])\<rparr>)"
    by (rule create_loop_stop [OF sp(2) assms(4)])
  then have cl: "create_loop (zip ps (map ?G ps)) [] ?st1 =
     ((Some cause, take i ps), st\<lparr>trace := trace st @ map Require ps @ map Create (take (Suc i) ps)\<rparr>)"
    using sp(1) sp(3) by (simp add: zip_map_self)
  show ?thesis
    using assms(2) ne by (simp add: createTables_def collectGenerators_ok [OF ne assms(1)] cl Let_def)
qed

lemma dropTables_stop:
  assumes "\<forall>p \<in> set ps. generator_at st p \<noteq> None" and "i < length ps"
    and "\<forall>j < i. gen_drop (the (generator_at st (ps ! j))) = Resolves"
    and "failure ''drop'' (the (generator_at st (ps ! i)))
           (gen_drop (the (generator_at st (ps ! i)))) = Some cause"
  shows "dropTables ps st =
    (let st2 = st\<lparr>trace := trace st @ map Require ps @ map Drop (take (Suc i) ps)\<rparr>;
         failed = Inl (GeneratorHandlerError
                    (count_message (take i ps) ps ''dropped'' @ '': '' @ message cause))
     in if i = 0 then (failed, st2)
        else case remove_rows (take i ps) st2 of
               (Inl e, st3) \<Rightarrow> (Inl e, st3)
             | (Inr u, st3) \<Rightarrow> (failed, st3))"
proof -
  let ?G = "\<lambda>p. the (generator_at st p)"
  let ?st1 = "st\<lparr>trace := trace st @ map Require ps\<rparr>"
  have ne: "ps \<noteq> []" using assms(2) by auto
  note sp = split_at [OF assms(2), of "\<lambda>p. gen_drop (?G p) = Resolves", OF assms(3)]
  have "drop_loop (map (\<lambda>p. (p, ?G p)) (take i ps @ ps ! i # drop (Suc i) ps)) [] ?st1 =
     ((Some cause, [] @ take i ps), ?st1\<lparr>trace := trace ?st1 @ map Drop (take i ps @ [ps ! i])\<rparr>)"
    by (rule drop_loop_stop [OF sp(2) assms(4)])
  then have cl: "drop_loop (zip ps (map ?G ps)) [] ?st1 =
     ((Some cause, take i ps), st\<lparr>trace := trace st @ map Require ps @ map Drop (take (Suc i) ps)\<rparr>)"
    using sp(1) sp(3) by (simp add: zip_map_self)
  show ?thesis
    using assms(2) ne by (simp add: dropTables_def collectGenerators_ok [OF ne assms(1)] cl Let_def)
qed


lemma failure_Some: "out \<noteq> Resolves \<Longrightarrow> \<exists>cause. failure what g out = Some cause"
  by (cases out) auto

lemma new_rows_fields:
  "map (\<lambda>r. (row_path r, row_batch r)) (new_rows n rs) = rs"
  by (induction n rs rule: new_rows.induct) auto

text \<open>
  Claim C1. When every module loads and the generator at index \<open>i\<close> is the first whose
  \<open>create()\<close> does not resolve, \<open>createTables\<close> rejects; it has called \<open>create()\<close> on
  the paths up to index \<open>i\<close> and on none after it; it has sent one insert, of exactly
  the paths before index \<open>i\<close> with the batch number (none when \<open>i = 0\<close>); and when the
  store accepts that insert the ledger has gained rows for exactly those paths, with
  that batch, and none for the failing path.
\<close>

theorem apply_partial_failure:
  assumes "\<forall>p \<in> set ps. generator_at st p \<noteq> None" and "i < length ps"
    and "\<forall>j < i. gen_create (the (generator_at st (ps ! j))) = Resolves"
    and "gen_create (the (generator_at st (ps ! i))) \<noteq> Resolves"
  shows "(\<exists>e. fst (createTables ps b st) = Inl e) \<and>
     trace (snd (createTables ps b st)) =
       trace st @ map Require ps @ map Create (take (Suc i) ps) @
       (if i = 0 then [] else [insert_event (map (\<lambda>p. (p, b)) (take i ps))]) \<and>
     (i = 0 \<or> next_fault st = None \<and> generators_table st \<noteq> None \<longrightarrow>
        (\<exists>new. ledger_rows (snd (createTables ps b st)) = ledger_rows st @ new \<and>
               map (\<lambda>r. (row_path r, row_batch r)) new = map (\<lambda>p. (p, b)) (take i ps)))"
proof -
  obtain cause where c: "failure ''create'' (the (generator_at st (ps ! i)))
           (gen_create (the (generator_at st (ps ! i)))) = Some cause"
    using failure_Some [OF assms(4)] by blast
  note stop = createTables_stop [OF assms(1,2,3) c, of b]
  show ?thesis
  proof (cases "i = 0")
    case True
    then show ?thesis using stop by (simp add: Let_def ledger_rows_def)
  next
    case False
    let ?st2 = "st\<lparr>trace := trace st @ map Require ps @ map Create (take (Suc i) ps)\<rparr>"
    have nf: "next_fault ?st2 = next_fault st" by (simp add: next_fault_def)
    show ?thesis
      using False stop
      by (cases "next_fault st"; cases "generators_table st")
         (auto simp: Let_def add_cases nf ledger_rows_def new_rows_fields)
  qed
qed


lemmas example_defs = world_def example_modules_def users_js_def profiles_js_def orders_js_def
  gen_def generator_at_def next_fault_def ledger_rows_def

theorem apply_partial_failure_witness:
  "trace (snd (createTables [users_js, profiles_js, orders_js] 1
       (world (Some []) [] (example_modules (Rejects (PlainError ''Ops'')) Resolves)))) =
     [Require users_js, Require profiles_js, Require orders_js,
      Create users_js, Create profiles_js, InsertRow ''generators'' (users_js, 1)] \<and>
   (\<exists>new. ledger_rows (snd (createTables [users_js, profiles_js, orders_js] 1
       (world (Some []) [] (example_modules (Rejects (PlainError ''Ops'')) Resolves)))) = new \<and>
      map (\<lambda>r. (row_path r, row_batch r)) new = [(users_js, 1)])"
proof -
  let ?w = "world (Some []) [] (example_modules (Rejects (PlainError ''Ops'')) Resolves)"
  let ?ps = "[users_js, profiles_js, orders_js]"
  have h1: "\<forall>p \<in> set ?ps. generator_at ?w p \<noteq> None"
    by (simp add: example_defs)
  have h2: "1 < length ?ps" by simp
  have h3: "\<forall>j < 1. gen_create (the (generator_at ?w (?ps ! j))) = Resolves"
    by (simp add: example_defs)
  have h4: "gen_create (the (generator_at ?w (?ps ! 1))) \<noteq> Resolves"
    by (simp add: example_defs)
  have w: "next_fault ?w = None" "generators_table ?w \<noteq> None" "trace ?w = []"
    "ledger_rows ?w = []"
    by (simp_all add: world_def next_fault_def ledger_rows_def)
  show ?thesis
    using apply_partial_failure [OF h1 h2 h3 h4, of 1] w
    by (simp add: insert_event_def)
qed

text \<open>
  Claim C9. When the generator at index \<open>i\<close> is the first not to resolve and its
  \<open>create()\<close> returns a value that is not a promise, \<open>createTables\<close> calls no later
  generator, rejects with \<open>i/n table(s) created: Invalid create method in: <class>\<close>
  (the offending path is not counted) and records rows for the paths before index \<open>i\<close>
  only. The same holds of \<open>dropTables\<close> with \<open>drop()\<close>: the rows deleted are those of the
  paths before index \<open>i\<close>.
\<close>

theorem non_awaitable_aborts:
  assumes "\<forall>p \<in> set ps. generator_at st p \<noteq> None" and "i < length ps"
  shows "((\<forall>j < i. gen_create (the (generator_at st (ps ! j))) = Resolves) \<and>
          gen_create (the (generator_at st (ps ! i))) = Returns \<longrightarrow>
       trace (snd (createTables ps b st)) =
         trace st @ map Require ps @ map Create (take (Suc i) ps) @
         (if i = 0 then [] else [insert_event (map (\<lambda>p. (p, b)) (take i ps))]) \<and>
       (i = 0 \<or> next_fault st = None \<and> generators_table st \<noteq> None \<longrightarrow>
          fst (createTables ps b st) = Inl (GeneratorHandlerError
            (toString i @ ''/'' @ toString (length ps) @ '' table'' @ sfx ps @
             '' created: Invalid create method in: '' @ gen_name (the (generator_at st (ps ! i))))) \<and>
          (\<exists>new. ledger_rows (snd (createTables ps b st)) = ledger_rows st @ new \<and>
                 map (\<lambda>r. (row_path r, row_batch r)) new = map (\<lambda>p. (p, b)) (take i ps)))) \<and>
     ((\<forall>j < i. gen_drop (the (generator_at st (ps ! j))) = Resolves) \<and>
          gen_drop (the (generator_at st (ps ! i))) = Returns \<longrightarrow>
       trace (snd (dropTables ps st)) =
         trace st @ map Require ps @ map Drop (take (Suc i) ps) @
         (if i = 0 then [] else [Delete ''generators'' (take i ps)]) \<and>
       (i = 0 \<or> next_fault st = None \<and> generators_table st \<noteq> None \<longrightarrow>
          fst (dropTables ps st) = Inl (GeneratorHandlerError
            (toString i @ ''/'' @ toString (length ps) @ '' table'' @ sfx ps @
             '' dropped: Invalid drop method in: '' @ gen_name (the (generator_at st (ps ! i))))) \<and>
          ledger_rows (snd (dropTables ps st)) =
            filter (\<lambda>r. row_path r \<notin> set (take i ps)) (ledger_rows st)))"
proof (intro conjI impI)
  let ?g = "the (generator_at st (ps ! i))"
  assume a: "(\<forall>j < i. gen_create (the (generator_at st (ps ! j))) = Resolves) \<and>
          gen_create ?g = Returns"
  then have c: "failure ''create'' ?g (gen_create ?g)
      = Some (GeneratorHandlerError (''Invalid create method in: '' @ gen_name ?g))"
    by simp
  from a have p: "\<forall>j < i. gen_create (the (generator_at st (ps ! j))) = Resolves" by simp
  note stop = createTables_stop [OF assms(1,2) p c, of b]
  let ?st2 = "st\<lparr>trace := trace st @ map Require ps @ map Create (take (Suc i) ps)\<rparr>"
  have nf: "next_fault ?st2 = next_fault st" by (simp add: next_fault_def)
  show "trace (snd (createTables ps b st)) =
         trace st @ map Require ps @ map Create (take (Suc i) ps) @
         (if i = 0 then [] else [insert_event (map (\<lambda>p. (p, b)) (take i ps))])"
    using stop by (auto simp: Let_def add_cases split: option.splits)
  assume ok: "i = 0 \<or> next_fault st = None \<and> generators_table st \<noteq> None"
  show "fst (createTables ps b st) = Inl (GeneratorHandlerError
            (toString i @ ''/'' @ toString (length ps) @ '' table'' @ sfx ps @
             '' created: Invalid create method in: '' @ gen_name ?g))"
    using stop ok assms(2) by (auto simp: Let_def add_cases nf count_message_def)
  show "\<exists>new. ledger_rows (snd (createTables ps b st)) = ledger_rows st @ new \<and>
                 map (\<lambda>r. (row_path r, row_batch r)) new = map (\<lambda>p. (p, b)) (take i ps)"
    using stop ok by (auto simp: Let_def add_cases nf ledger_rows_def new_rows_fields)
next
  let ?g = "the (generator_at st (ps ! i))"
  assume a: "(\<forall>j < i. gen_drop (the (generator_at st (ps ! j))) = Resolves) \<and>
          gen_drop ?g = Returns"
  then have c: "failure ''drop'' ?g (gen_drop ?g)
      = Some (GeneratorHandlerError (''Invalid drop method in: '' @ gen_name ?g))"
    by simp
  from a have p: "\<forall>j < i. gen_drop (the (generator_at st (ps ! j))) = Resolves" by simp
  note stop = dropTables_stop [OF assms(1,2) p c]
  let ?st2 = "st\<lparr>trace := trace st @ map Require ps @ map Drop (take (Suc i) ps)\<rparr>"
  have nf: "next_fault ?st2 = next_fault st" by (simp add: next_fault_def)
  show "trace (snd (dropTables ps st)) =
         trace st @ map Require ps @ map Drop (take (Suc i) ps) @
         (if i = 0 then [] else [Delete ''generators'' (take i ps)])"
    using stop by (auto simp: Let_def remove_rows_cases split: option.splits)
  assume ok: "i = 0 \<or> next_fault st = None \<and> generators_table st \<noteq> None"
  show "fst (dropTables ps st) = Inl (GeneratorHandlerError
            (toString i @ ''/'' @ toString (length ps) @ '' table'' @ sfx ps @
             '' dropped: Invalid drop method in: '' @ gen_name ?g))"
    using stop ok assms(2) by (auto simp: Let_def remove_rows_cases nf count_message_def)
  show "ledger_rows (snd (dropTables ps st)) =
            filter (\<lambda>r. row_path r \<notin> set (take i ps)) (ledger_rows st)"
    using stop ok by (auto simp: Let_def remove_rows_cases nf ledger_rows_def)
qed


theorem non_awaitable_aborts_witness:
  "fst (createTables [users_js, profiles_js, orders_js] 1
         (world (Some []) [] (example_modules Returns Returns))) =
     Inl (GeneratorHandlerError ''1/3 tables created: Invalid create method in: G'') \<and>
   trace (snd (createTables [users_js, profiles_js, orders_js] 1
         (world (Some []) [] (example_modules Returns Returns)))) =
     [Require users_js, Require profiles_js, Require orders_js,
      Create users_js, Create profiles_js, InsertRow ''generators'' (users_js, 1)] \<and>
   fst (dropTables [users_js, profiles_js, orders_js]
         (world (Some three_rows) [] (example_modules Returns Returns))) =
     Inl (GeneratorHandlerError ''1/3 tables dropped: Invalid drop method in: G'') \<and>
   ledger_rows (snd (dropTables [users_js, profiles_js, orders_js]
         (world (Some three_rows) [] (example_modules Returns Returns)))) =
     [\<lparr>row_id = 2, row_batch = 2, row_path = profiles_js\<rparr>,
      \<lparr>row_id = 3, row_batch = 2, row_path = orders_js\<rparr>]"
proof -
  let ?w = "world (Some []) [] (example_modules Returns Returns)"
  let ?v = "world (Some three_rows) [] (example_modules Returns Returns)"
  let ?ps = "[users_js, profiles_js, orders_js]"
  have h1: "\<forall>p \<in> set ?ps. generator_at ?w p \<noteq> None"
    and k1: "\<forall>p \<in> set ?ps. generator_at ?v p \<noteq> None"
    by (simp_all add: example_defs)
  have h2: "1 < length ?ps" by simp
  have h3: "(\<forall>j < 1. gen_create (the (generator_at ?w (?ps ! j))) = Resolves) \<and>
      gen_create (the (generator_at ?w (?ps ! 1))) = Returns"
    by (simp add: example_defs)
  have k3: "(\<forall>j < 1. gen_drop (the (generator_at ?v (?ps ! j))) = Resolves) \<and>
      gen_drop (the (generator_at ?v (?ps ! 1))) = Returns"
    by (simp add: example_defs)
  have w: "next_fault ?w = None" "generators_table ?w \<noteq> None" "trace ?w = []"
    "next_fault ?v = None" "generators_table ?v \<noteq> None" "ledger_rows ?v = three_rows"
    "gen_name (the (generator_at ?w (?ps ! 1))) = ''G''"
    "gen_name (the (generator_at ?v (?ps ! 1))) = ''G''"
    by (simp_all add: example_defs)
  have n: "toString (Suc 0) = ''1''" "toString (Suc (Suc (Suc 0))) = ''3''" by code_simp+
  have d: "users_js \<noteq> profiles_js" "users_js \<noteq> orders_js"
    by (simp_all add: users_js_def profiles_js_def orders_js_def)
  show ?thesis
    using non_awaitable_aborts [OF h1 h2, of 1] non_awaitable_aborts [OF k1 h2, of 1] h3 k3 w n d
    by (simp add: insert_event_def sfx_def three_rows_def)
qed

subsection \<open>Apply, then undo\<close>

lemma createTables_all:
  assumes "ps \<noteq> []" and "\<forall>p \<in> set ps. generator_at st p \<noteq> None"
    and "\<forall>p \<in> set ps. gen_create (the (generator_at st p)) = Resolves"
  shows "createTables ps b st =
    (case add ps b (st\<lparr>trace := trace st @ map Require ps @ map Create ps\<rparr>) of
       (Inl e, st3) \<Rightarrow> (Inl e, st3)
     | (Inr u, st3) \<Rightarrow> (Inr (count_message ps ps ''created''), st3))"
proof -
  let ?G = "\<lambda>p. the (generator_at st p)"
  let ?st1 = "st\<lparr>trace := trace st @ map Require ps\<rparr>"
  have "create_loop (zip ps (map ?G ps)) [] ?st1 =
     ((None, ps), st\<lparr>trace := trace st @ map Require ps @ map Create ps\<rparr>)"
    using create_loop_all [of ps ?G "[]" ?st1] assms(3) by (simp add: zip_map_self)
  then show ?thesis
    by (simp add: createTables_def collectGenerators_ok [OF assms(1,2)])
qed

lemma dropTables_all:
  assumes "ps \<noteq> []" and "\<forall>p \<in> set ps. generator_at st p \<noteq> None"
    and "\<forall>p \<in> set ps. gen_drop (the (generator_at st p)) = Resolves"
  shows "dropTables ps st =
    (case remove_rows ps (st\<lparr>trace := trace st @ map Require ps @ map Drop ps\<rparr>) of
       (Inl e, st3) \<Rightarrow> (Inl e, st3)
     | (Inr u, st3) \<Rightarrow> (Inr (count_message ps ps ''dropped''), st3))"
proof -
  let ?G = "\<lambda>p. the (generator_at st p)"
  let ?st1 = "st\<lparr>trace := trace st @ map Require ps\<rparr>"
  have "drop_loop (zip ps (map ?G ps)) [] ?st1 =
     ((None, ps), st\<lparr>trace := trace st @ map Require ps @ map Drop ps\<rparr>)"
    using drop_loop_all [of ps ?G "[]" ?st1] assms(3) by (simp add: zip_map_self)
  then show ?thesis
    by (simp add: dropTables_def collectGenerators_ok [OF assms(1,2)])
qed

lemma generator_at_modules: "modules st' = modules st \<Longrightarrow> generator_at st' p = generator_at st p"
  by (simp add: generator_at_def)

text \<open>The plan of \<open>beReadyToGenerate\<close> and the state it leaves, with no fault.\<close>

lemma beReadyToGenerate_no_fault:
  assumes "faults st = []" and "generators_table st = None \<Longrightarrow> rows st = []"
    and "\<forall>name \<in> set (listing dir st). isFile name \<or> isMappedFile name"
    and "pending = filter (\<lambda>p. p \<notin> row_path ` set (ledger_rows st))
           (map (resolvePath dir) (filter (\<lambda>name. \<not> isMappedFile name) (listing dir st)))"
    and "pending \<noteq> []"
  obtains st2 where
    "beReadyToGenerate dir st =
       (Inr \<lparr>paths = pending, batch = lastBatch (map row_batch (ledger_rows st)) + 1\<rparr>, st2)"
    and "faults st2 = []" and "generators_table st2 = Some (ledger_rows st)"
    and "modules st2 = modules st"
proof -
  obtain st1 where l: "load st = (Inr (), st1)" and r: "rows st1 = ledger_rows st"
    and f: "faults st1 = []" and d: "disk st1 = disk st" and m: "modules st1 = modules st"
    and g: "generators_table st1 = Some (ledger_rows st)"
    using load_in_sync [OF assms(1,2)] by (cases "load st") auto
  have li: "listing dir st1 = listing dir st" using d by (simp add: listing_def)
  have "invalid_file False (filter (\<lambda>name. \<not> isMappedFile name) (listing dir st)) = None"
    using assms(3) by (auto simp: invalid_file_def find_None_iff)
  then have c: "collectPaths dir False st1 =
      (Inr (map (resolvePath dir) (filter (\<lambda>name. \<not> isMappedFile name) (listing dir st))),
       st1\<lparr>trace := trace st1 @ [Readdir dir]\<rparr>)"
    using collectPaths_no_fault [OF f, of dir False] li by simp
  have "beReadyToGenerate dir st =
       (Inr \<lparr>paths = pending, batch = lastBatch (map row_batch (ledger_rows st)) + 1\<rparr>,
        st1\<lparr>trace := trace st1 @ [Readdir dir]\<rparr>)"
    using l r c assms(4,5) by (simp add: beReadyToGenerate_def Let_def)
  then show thesis
    using f g m that [of "st1\<lparr>trace := trace st1 @ [Readdir dir]\<rparr>"] by simp
qed

lemma new_rows_paths: "map row_path (new_rows n (map (\<lambda>p. (p, b)) ps)) = ps"
  by (induction ps arbitrary: n) auto

lemma new_rows_batches: "r \<in> set (new_rows n (map (\<lambda>p. (p, b)) ps)) \<Longrightarrow> row_batch r = b"
  by (induction ps arbitrary: n) auto

lemma lastBatch_upper: "b \<in> set bs \<Longrightarrow> b \<le> lastBatch bs"
  by (auto simp: lastBatch_Max)

lemma lastBatch_new:
  assumes "new \<noteq> []" and "\<forall>b \<in> set new. b = lastBatch old + 1"
  shows "lastBatch (old @ new) = lastBatch old + 1"
proof -
  have s: "set new = {lastBatch old + 1}" using assms by (cases new) auto
  have "Max (set old \<union> {lastBatch old + 1}) = lastBatch old + 1"
  proof (rule Max_eqI)
    fix y assume "y \<in> set old \<union> {lastBatch old + 1}"
    then show "y \<le> lastBatch old + 1" using lastBatch_upper [of y old] by auto
  qed auto
  then show ?thesis using assms(1) s by (simp add: lastBatch_Max)
qed


lemma count_message_rev: "count_message (rev ps) (rev ps) what = count_message ps ps what"
  by (simp add: count_message_def sfx_def)

text \<open>
  Claim C5. With the store and the file system answering, a well-named directory whose
  pending generators all load and whose \<open>create()\<close> and \<open>drop()\<close> all resolve:
  \<open>generate\<close> succeeds and adds to the ledger one row for each pending path, in order;
  \<open>rollback\<close> right after it succeeds, and the ledger's rows are then exactly those from
  before the apply: no row is left for any of the pending paths.
\<close>

theorem apply_then_undo:
  assumes nf: "faults st = []" and sync: "generators_table st = None \<Longrightarrow> rows st = []"
    and valid: "\<forall>name \<in> set (listing dir st). isFile name \<or> isMappedFile name"
    and dir: "isFullStr dir"
    and pend: "pending = filter (\<lambda>p. p \<notin> row_path ` set (ledger_rows st))
           (map (resolvePath dir) (filter (\<lambda>name. \<not> isMappedFile name) (listing dir st)))"
    and ne: "pending \<noteq> []"
    and gens: "\<forall>p \<in> set pending. generator_at st p \<noteq> None \<and>
           gen_create (the (generator_at st p)) = Resolves \<and>
           gen_drop (the (generator_at st p)) = Resolves"
  shows "fst (generate dir st) = Inr (count_message pending pending ''created'') \<and>
     map row_path (ledger_rows (snd (generate dir st))) = map row_path (ledger_rows st) @ pending \<and>
     fst (rollback (snd (generate dir st))) = Inr (count_message pending pending ''dropped'') \<and>
     ledger_rows (snd (rollback (snd (generate dir st)))) = ledger_rows st \<and>
     (\<forall>r \<in> set (ledger_rows (snd (rollback (snd (generate dir st))))). row_path r \<notin> set pending)"
proof -
  let ?old = "ledger_rows st"
  let ?b = "lastBatch (map row_batch ?old) + 1"
  obtain st2 where plan: "beReadyToGenerate dir st = (Inr \<lparr>paths = pending, batch = ?b\<rparr>, st2)"
    and f2: "faults st2 = []" and g2: "generators_table st2 = Some ?old"
    and m2: "modules st2 = modules st"
    by (rule beReadyToGenerate_no_fault [OF nf sync valid pend ne])
  have ga2: "\<And>p. generator_at st2 p = generator_at st p"
    using m2 by (rule generator_at_modules)
  let ?new = "new_rows (next_id st2) (map (\<lambda>p. (p, ?b)) pending)"
  let ?st3 = "st2\<lparr>trace := trace st2 @ map Require pending @ map Create pending @
                  [insert_event (map (\<lambda>p. (p, ?b)) pending)],
                generators_table := Some (?old @ ?new),
                next_id := next_id st2 + length pending\<rparr>"
  have ct: "createTables pending ?b st2 = (Inr (count_message pending pending ''created''), ?st3)"
    using gens f2 g2
    by (simp add: createTables_all [OF ne] ga2 add_cases next_fault_def Let_def)
  have gen: "generate dir st = (Inr (count_message pending pending ''created''), ?st3)"
    using dir plan ct by (simp add: generate_def)
  have old_not_pending: "\<forall>r \<in> set ?old. row_path r \<notin> set pending"
    using pend by auto
  have old_low: "\<forall>r \<in> set ?old. row_batch r \<noteq> ?b"
  proof
    fix r assume "r \<in> set ?old"
    then have "row_batch r \<le> lastBatch (map row_batch ?old)"
      by (intro lastBatch_upper) simp
    then show "row_batch r \<noteq> ?b" by simp
  qed
  have new_b: "\<forall>r \<in> set ?new. row_batch r = ?b"
    using new_rows_batches by blast
  have new_ne: "?new \<noteq> []" using ne by (cases pending) auto
  have lb: "lastBatch (map row_batch (?old @ ?new)) = ?b"
    using lastBatch_new [of "map row_batch ?new" "map row_batch ?old"] new_b new_ne by simp
  have sel: "filter (\<lambda>g. row_batch g = ?b) (?old @ ?new) = ?new"
    using old_low new_b by (simp add: filter_empty_conv)
  let ?st4 = "?st3\<lparr>rows := ?old @ ?new,
                    trace := trace ?st3 @ [Raw ''SELECT * FROM generators;'']\<rparr>"
  have ld: "load ?st3 = (Inr (), ?st4)"
    using f2 by (simp add: load_present)
  have rb: "beReadyToRollback ?st3 = (Inr (rev pending), ?st4)"
    using ld lb sel ne new_ne by (simp add: beReadyToRollback_def Let_def new_rows_paths rev_map [symmetric])
  define st4 where "st4 = ?st4"
  have f4: "faults st4 = []" and g4: "generators_table st4 = Some (?old @ ?new)"
    and ga4: "\<And>p. generator_at st4 p = generator_at st p"
    using f2 m2 by (simp_all add: st4_def generator_at_def)
  have keep: "filter (\<lambda>r. row_path r \<notin> set pending) (?old @ ?new) = ?old"
  proof -
    have "\<forall>r \<in> set ?new. row_path r \<in> set pending"
      using new_rows_paths [of "next_id st2" ?b pending] by (metis image_eqI set_map)
    then show ?thesis using old_not_pending by (simp add: filter_empty_conv)
  qed
  have d1: "dropTables (rev pending) st4 =
    (case remove_rows (rev pending)
            (st4\<lparr>trace := trace st4 @ map Require (rev pending) @ map Drop (rev pending)\<rparr>) of
       (Inl e, st3) \<Rightarrow> (Inl e, st3)
     | (Inr u, st3) \<Rightarrow> (Inr (count_message (rev pending) (rev pending) ''dropped''), st3))"
    using ne gens by (intro dropTables_all) (simp_all add: ga4)
  have dt: "fst (dropTables (rev pending) st4) = Inr (count_message pending pending ''dropped'')
      \<and> ledger_rows (snd (dropTables (rev pending) st4)) = ?old"
    unfolding d1 using f4 g4 keep
    by (simp add: remove_rows_cases next_fault_def Let_def count_message_rev
        ledger_rows_def [of "_\<lparr>generators_table := _\<rparr>"])
  have roll: "rollback ?st3 = dropTables (rev pending) st4"
    using rb by (simp add: rollback_def st4_def)
  have l3: "ledger_rows ?st3 = ?old @ ?new" by (simp add: ledger_rows_def)
  show ?thesis
    using gen roll dt old_not_pending l3 by (simp add: new_rows_paths)
qed


theorem apply_then_undo_witness:
  "fst (generate ''/g'' (world None [users_js, profiles_js] (example_modules Resolves Resolves)))
     = Inr ''2/2 tables created'' \<and>
   map row_path (ledger_rows (snd (generate ''/g''
       (world None [users_js, profiles_js] (example_modules Resolves Resolves)))))
     = [users_js, profiles_js] \<and>
   fst (rollback (snd (generate ''/g''
       (world None [users_js, profiles_js] (example_modules Resolves Resolves)))))
     = Inr ''2/2 tables dropped'' \<and>
   ledger_rows (snd (rollback (snd (generate ''/g''
       (world None [users_js, profiles_js] (example_modules Resolves Resolves)))))) = []"
proof -
  let ?w = "world None [users_js, profiles_js] (example_modules Resolves Resolves)"
  have h1: "faults ?w = []" by (simp add: world_def)
  have h2: "generators_table ?w = None \<Longrightarrow> rows ?w = []" by (simp add: world_def)
  have l: "listing ''/g'' ?w = [''01_generate_users_table.js'', ''02_generate_profiles_table.js'']"
    by code_simp
  have h3: "\<forall>name \<in> set (listing ''/g'' ?w). isFile name \<or> isMappedFile name"
    unfolding l by code_simp
  have h4: "isFullStr ''/g''" by code_simp
  have m: "filter (\<lambda>name. \<not> isMappedFile name) (listing ''/g'' ?w)
      = [''01_generate_users_table.js'', ''02_generate_profiles_table.js'']"
    unfolding l by code_simp
  have e: "ledger_rows ?w = []" by (simp add: world_def ledger_rows_def)
  have h5: "[users_js, profiles_js] = filter (\<lambda>p. p \<notin> row_path ` set (ledger_rows ?w))
           (map (resolvePath ''/g'') (filter (\<lambda>name. \<not> isMappedFile name) (listing ''/g'' ?w)))"
    unfolding m e by (simp add: resolvePath_def users_js_def profiles_js_def)
  have h6: "[users_js, profiles_js] \<noteq> []" by simp
  have h7: "\<forall>p \<in> set [users_js, profiles_js]. generator_at ?w p \<noteq> None \<and>
           gen_create (the (generator_at ?w p)) = Resolves \<and>
           gen_drop (the (generator_at ?w p)) = Resolves"
    by (simp add: example_defs)
  have c: "count_message [users_js, profiles_js] [users_js, profiles_js] ''created''
      = ''2/2 tables created''"
    "count_message [users_js, profiles_js] [users_js, profiles_js] ''dropped''
      = ''2/2 tables dropped''"
    by code_simp+
  show ?thesis
    using apply_then_undo [OF h1 h2 h3 h4 h5 h6 h7] e c by simp
qed

subsection \<open>Batch numbers\<close>













subsection \<open>remove and reset\<close>

lemma collectPaths_cases:
  "collectPaths dir mapped st =
    (case next_fault st of
       Some e \<Rightarrow> Inl (GeneratorHandlerError (message e))
     | None \<Rightarrow>
        (let files = (if mapped then listing dir st
                      else filter (\<lambda>name. \<not> isMappedFile name) (listing dir st))
         in case invalid_file mapped files of
              Some file \<Rightarrow> Inl (GeneratorHandlerError (''Invalid generator file: '' @ file))
            | None \<Rightarrow> Inr (map (resolvePath dir) files)),
     st\<lparr>faults := tl (faults st), trace := trace st @ [Readdir dir]\<rparr>)"
  by (auto simp: collectPaths_def readdir_def call_cases listing_def invalid_file_def Let_def
      split: option.splits)

lemma raw_drop_state:
  "trace (snd (raw_drop name st)) = trace st @ [Raw (''DROP TABLE '' @ name @ '';'')]"
  "disk (snd (raw_drop name st)) = disk st"
  by (auto simp: raw_drop_def call_cases split: option.splits)

lemma exec_loop_state:
  "trace (snd (exec_loop gens n st)) =
     trace st @ map (\<lambda>g. Raw (''DROP TABLE '' @ gen_table g @ '';'')) gens
       @ [Raw ''DROP TABLE generators;'']"
  "disk (snd (exec_loop gens n st)) = disk st"
proof (induction gens arbitrary: n st)
  case Nil
  { case 1 show ?case using raw_drop_state(1) [of "''generators''" st] by simp }
  { case 2 show ?case by (simp add: raw_drop_state) }
next
  case (Cons g gens)
  { case 1 show ?case
      using Cons.IH(1) raw_drop_state(1) [of "gen_table g" st]
      by (cases "raw_drop (gen_table g) st") (auto split: sum.splits) }
  { case 2 show ?case
      using Cons.IH(2) raw_drop_state(2) [of "gen_table g" st]
      by (cases "raw_drop (gen_table g) st") (auto split: sum.splits) }
qed

lemma collect_loop_trace:
  "\<exists>k. snd (collect_loop ps gens st) = st\<lparr>trace := trace st @ map Require (take k ps)\<rparr>"
proof (induction ps arbitrary: gens st)
  case Nil
  show ?case by simp
next
  case (Cons p ps)
  show ?case
  proof (cases "generator_at st p")
    case None
    then have "snd (collect_loop (p # ps) gens st) = st\<lparr>trace := trace st @ map Require (take 1 (p # ps))\<rparr>"
      by (auto simp: generator_at_def Let_def emit_def split: sum.splits option.splits)
    then show ?thesis by blast
  next
    case (Some g)
    then have e: "collect_loop (p # ps) gens st = collect_loop ps (gens @ [g]) (emit (Require p) st)"
      by (auto simp: generator_at_def Let_def emit_def split: sum.splits option.splits)
    from Cons.IH [of "gens @ [g]" "emit (Require p) st"] obtain k where
      "snd (collect_loop ps (gens @ [g]) (emit (Require p) st)) =
         (emit (Require p) st)\<lparr>trace := trace (emit (Require p) st) @ map Require (take k ps)\<rparr>"
      by blast
    then have "snd (collect_loop (p # ps) gens st) =
        st\<lparr>trace := trace st @ map Require (take (Suc k) (p # ps))\<rparr>"
      using e by (simp add: emit_def)
    then show ?thesis by blast
  qed
qed

text \<open>\<open>reset\<close> changes no file and makes no call that would.\<close>

lemma reset_frame:
  "disk (snd (reset dir st)) = disk st \<and>
   filter is_fs_write (trace (snd (reset dir st))) = filter is_fs_write (trace st)"
proof (cases "isFullStr dir")
  case False
  then show ?thesis by (simp add: reset_def)
next
  case True
  obtain x where c: "collectPaths dir False st =
      (x, st\<lparr>faults := tl (faults st), trace := trace st @ [Readdir dir]\<rparr>)"
    using collectPaths_cases [of dir False st] by simp
  let ?st1 = "st\<lparr>faults := tl (faults st), trace := trace st @ [Readdir dir]\<rparr>"
  show ?thesis
  proof (cases x)
    case (Inl e)
    then show ?thesis using True c by (simp add: reset_def)
  next
    case (Inr ps)
    show ?thesis
    proof (cases "ps = []")
      case True
      then show ?thesis using \<open>isFullStr dir\<close> c Inr by (simp add: reset_def reset_dropTables_def)
    next
      case False
      obtain k where k: "snd (collect_loop (rev ps) [] ?st1) =
          ?st1\<lparr>trace := trace ?st1 @ map Require (take k (rev ps))\<rparr>"
        using collect_loop_trace by blast
      show ?thesis
      proof (cases "fst (collect_loop (rev ps) [] ?st1)")
        case (Inl e)
        then show ?thesis using \<open>isFullStr dir\<close> c \<open>x = Inr ps\<close> False k
          by (cases "collect_loop (rev ps) [] ?st1")
             (simp add: reset_def reset_dropTables_def collectGenerators_def)
      next
        case (Inr gens)
        then show ?thesis using \<open>isFullStr dir\<close> c \<open>x = Inr ps\<close> False k
          by (cases "collect_loop (rev ps) [] ?st1";
              cases "exec_loop gens 0 (snd (collect_loop (rev ps) [] ?st1))")
             (use exec_loop_state [of gens 0 "snd (collect_loop (rev ps) [] ?st1)"] in
               \<open>simp add: reset_def reset_dropTables_def collectGenerators_def\<close>)
      qed
    qed
  qed
qed


lemma fs_unlink_trace: "trace (snd (fs_unlink p st)) = trace st @ [Unlink p]"
  by (simp add: fs_unlink_def call_cases split: option.splits)

lemma fs_rename_trace: "trace (snd (fs_rename old new st)) = trace st @ [Rename old new]"
  by (simp add: fs_rename_def call_cases split: option.splits)

lemma all_calls_trace:
  assumes "\<And>x st. trace (snd (f x st)) = trace st @ [ev x]"
  shows "trace (snd (all_calls (map f xs) st)) = trace st @ map ev xs"
proof (induction xs arbitrary: st)
  case Nil
  show ?case by simp
next
  case (Cons x xs)
  show ?case
    using Cons.IH [of "snd (f x st)"] assms [of x st]
    by (cases "f x st") (auto split: sum.splits)
qed

lemma unlink_trace: "trace (snd (unlink ps st)) = trace st @ map Unlink ps"
  unfolding unlink_def by (rule all_calls_trace) (rule fs_unlink_trace)

lemma rename_trace:
  "trace (snd (rename groups st)) = trace st @ map (\<lambda>(old, new). Rename old new) (renames groups)"
proof (cases "groups = []")
  case True
  then show ?thesis by (simp add: rename_def renames_def enumerate_eq_zip)
next
  case False
  have "trace (snd (all_calls (map (\<lambda>(old, new). fs_rename old new) (renames groups)) st))
      = trace st @ map (\<lambda>(old, new). Rename old new) (renames groups)"
    by (rule all_calls_trace) (auto simp: fs_rename_trace)
  then show ?thesis using False
    by (cases "all_calls (map (\<lambda>(old, new). fs_rename old new) (renames groups)) st")
       (auto simp: rename_def split: sum.splits)
qed

text \<open>After its reset step \<open>remove\<close> calls \<open>unlink\<close> for every matched file, then renames.\<close>

lemma remove_after_reset:
  assumes "isSnakeCase name" and "isFullStr dir"
    and "collectPaths dir True st = (Inr ps, st1)"
    and "group_paths (filter (\<lambda>p. \<not> is_generator_of name p) ps) = Inr renamePaths"
    and "filter (is_generator_of name) ps \<noteq> []"
    and "remove_reset dir ps st1 = (Inr (), st2)"
  shows "\<exists>rest. trace (snd (remove name dir st)) =
           trace st2 @ map Unlink (filter (is_generator_of name) ps) @ rest \<and>
         (\<forall>ev \<in> set rest. is_fs_write ev) \<and>
         (fst (unlink (filter (is_generator_of name) ps) st2) = Inr () \<longrightarrow>
            rest = map (\<lambda>(old, new). Rename old new) (renames renamePaths)) \<and>
         (fst (unlink (filter (is_generator_of name) ps) st2) \<noteq> Inr () \<longrightarrow> rest = [])"
proof -
  let ?U = "filter (is_generator_of name) ps"
  obtain x st3 where u: "unlink ?U st2 = (x, st3)" by (cases "unlink ?U st2")
  have t3: "trace st3 = trace st2 @ map Unlink ?U" using unlink_trace [of ?U st2] u by simp
  show ?thesis
  proof (cases x)
    case (Inl e)
    then have "remove name dir st = (Inl e, st3)"
      using assms u by (simp add: remove_def Let_def)
    then show ?thesis using t3 u Inl by simp
  next
    case (Inr v)
    obtain y st4 where r: "rename renamePaths st3 = (y, st4)" by (cases "rename renamePaths st3")
    have t4: "trace st4 = trace st3 @ map (\<lambda>(old, new). Rename old new) (renames renamePaths)"
      using rename_trace [of renamePaths st3] r by simp
    have "snd (remove name dir st) = st4"
      using assms u Inr r by (cases y) (simp_all add: remove_def Let_def)
    then show ?thesis using t3 t4 u Inr by auto
  qed
qed


lemma remove_reset_frame:
  "disk (snd (remove_reset dir ps st)) = disk st \<and>
   filter is_fs_write (trace (snd (remove_reset dir ps st))) = filter is_fs_write (trace st)"
proof (cases ps)
  case Nil
  then show ?thesis by (simp add: remove_reset_def)
next
  case (Cons first others)
  show ?thesis
    using reset_frame [of dir st] Cons
    by (cases "reset dir st") (auto simp: remove_reset_def split: sum.splits)
qed

lemma collectPaths_state:
  "snd (collectPaths dir mapped st) = st\<lparr>faults := tl (faults st), trace := trace st @ [Readdir dir]\<rparr>"
  by (simp add: collectPaths_cases)

text \<open>
  Claim C10. In a \<open>remove\<close> that has listed the directory and found files of the table:
  when the reset step rejects, \<open>remove\<close> rejects with that error and the state the reset
  left, in which no file has changed and no \<open>unlink\<close> or \<open>rename\<close> has been called; when
  the reset step succeeds it has made no such call either, the \<open>unlink\<close> calls of the
  matched files come next, and the \<open>rename\<close> calls follow only when every deletion has
  succeeded.
\<close>

theorem remove_in_order:
  assumes "isSnakeCase name" and "isFullStr dir"
    and "collectPaths dir True st = (Inr ps, st1)"
    and "group_paths (filter (\<lambda>p. \<not> is_generator_of name p) ps) = Inr renamePaths"
    and "filter (is_generator_of name) ps \<noteq> []"
  shows "(remove_reset dir ps st1 = (Inl e, st2) \<longrightarrow>
       remove name dir st = (Inl e, st2) \<and> disk st2 = disk st \<and>
       filter is_fs_write (trace st2) = filter is_fs_write (trace st)) \<and>
     (remove_reset dir ps st1 = (Inr (), st2) \<longrightarrow>
       filter is_fs_write (trace st2) = filter is_fs_write (trace st) \<and>
       filter is_fs_write (trace (snd (remove name dir st))) =
         filter is_fs_write (trace st) @ map Unlink (filter (is_generator_of name) ps) @
         (if fst (unlink (filter (is_generator_of name) ps) st2) = Inr ()
          then map (\<lambda>(old, new). Rename old new) (renames renamePaths) else []))"
proof (intro conjI impI)
  have s1: "st1 = st\<lparr>faults := tl (faults st), trace := trace st @ [Readdir dir]\<rparr>"
    using collectPaths_state [of dir True st] assms(3) by simp
  note fr = remove_reset_frame [of dir ps st1]
  {
    assume r: "remove_reset dir ps st1 = (Inl e, st2)"
    show "remove name dir st = (Inl e, st2)"
      using assms r by (simp add: remove_def Let_def)
    show "disk st2 = disk st" using fr r s1 by simp
    show "filter is_fs_write (trace st2) = filter is_fs_write (trace st)"
      using fr r s1 by simp
  }
  {
    assume r: "remove_reset dir ps st1 = (Inr (), st2)"
    show w2: "filter is_fs_write (trace st2) = filter is_fs_write (trace st)"
      using fr r s1 by simp
    from remove_after_reset [OF assms r] obtain rest where
      t: "trace (snd (remove name dir st)) =
           trace st2 @ map Unlink (filter (is_generator_of name) ps) @ rest"
      and a: "\<forall>ev \<in> set rest. is_fs_write ev"
      and b: "fst (unlink (filter (is_generator_of name) ps) st2) = Inr () \<longrightarrow>
            rest = map (\<lambda>(old, new). Rename old new) (renames renamePaths)"
      and c: "fst (unlink (filter (is_generator_of name) ps) st2) \<noteq> Inr () \<longrightarrow> rest = []"
      by blast
    have "filter is_fs_write (map Unlink (filter (is_generator_of name) ps)) =
        map Unlink (filter (is_generator_of name) ps)"
      by (simp add: filter_map comp_def)
    moreover have "filter is_fs_write rest = rest" using a by (simp add: filter_id_conv)
    ultimately show "filter is_fs_write (trace (snd (remove name dir st))) =
         filter is_fs_write (trace st) @ map Unlink (filter (is_generator_of name) ps) @
         (if fst (unlink (filter (is_generator_of name) ps) st2) = Inr ()
          then map (\<lambda>(old, new). Rename old new) (renames renamePaths) else [])"
      using t w2 b c by simp
  }
qed


theorem remove_in_order_witness:
  "fst (remove ''users'' ''/g'' (world (Some []) [users_js, tags_js] (example_modules Resolves Resolves)))
     = Inl (GeneratorHandlerError ''Cannot find module'') \<and>
   disk (snd (remove ''users'' ''/g''
           (world (Some []) [users_js, tags_js] (example_modules Resolves Resolves))))
     = [users_js, tags_js] \<and>
   filter is_fs_write (trace (snd (remove ''users'' ''/g''
           (world (Some []) [users_js, tags_js] (example_modules Resolves Resolves))))) = [] \<and>
   filter is_fs_write (trace (snd (remove ''users'' ''/g''
           (world (Some []) [users_js, profiles_js] (example_modules Resolves Resolves)))))
     = [Unlink users_js, Rename profiles_js ''/g/01_generate_profiles_table.js'']"
proof -
  let ?w = "world (Some []) [users_js, tags_js] (example_modules Resolves Resolves)"
  let ?v = "world (Some []) [users_js, profiles_js] (example_modules Resolves Resolves)"
  have n: "isSnakeCase ''users''" and d: "isFullStr ''/g''" by code_simp+
  \<comment> \<open>the reset rejects\<close>
  have c: "fst (collectPaths ''/g'' True ?w) = Inr [users_js, tags_js]" by code_simp
  have g: "group_paths (filter (\<lambda>p. \<not> is_generator_of ''users'' p) [users_js, tags_js]) = Inr [[tags_js]]"
    by code_simp
  have u: "filter (is_generator_of ''users'') [users_js, tags_js] \<noteq> []" by code_simp
  have r: "fst (remove_reset ''/g'' [users_js, tags_js] (snd (collectPaths ''/g'' True ?w)))
      = Inl (GeneratorHandlerError ''Cannot find module'')" by code_simp
  have ce: "collectPaths ''/g'' True ?w = (Inr [users_js, tags_js], snd (collectPaths ''/g'' True ?w))"
    using c by (simp add: prod_eq_iff)
  have re: "remove_reset ''/g'' [users_js, tags_js] (snd (collectPaths ''/g'' True ?w)) =
      (Inl (GeneratorHandlerError ''Cannot find module''),
       snd (remove_reset ''/g'' [users_js, tags_js] (snd (collectPaths ''/g'' True ?w))))"
    using r by (simp add: prod_eq_iff)
  have a': "remove ''users'' ''/g'' ?w = (Inl (GeneratorHandlerError ''Cannot find module''),
       snd (remove_reset ''/g'' [users_js, tags_js] (snd (collectPaths ''/g'' True ?w)))) \<and>
     disk (snd (remove_reset ''/g'' [users_js, tags_js] (snd (collectPaths ''/g'' True ?w)))) = disk ?w \<and>
     filter is_fs_write (trace (snd (remove_reset ''/g'' [users_js, tags_js] (snd (collectPaths ''/g'' True ?w)))))
       = filter is_fs_write (trace ?w)"
    using remove_in_order [OF n d ce g u] re by blast
  \<comment> \<open>the reset succeeds\<close>
  have c2: "fst (collectPaths ''/g'' True ?v) = Inr [users_js, profiles_js]" by code_simp
  have g2: "group_paths (filter (\<lambda>p. \<not> is_generator_of ''users'' p) [users_js, profiles_js])
      = Inr [[profiles_js]]"
    by code_simp
  have u2: "filter (is_generator_of ''users'') [users_js, profiles_js] = [users_js]" by code_simp
  then have u2': "filter (is_generator_of ''users'') [users_js, profiles_js] \<noteq> []" by simp
  have r2: "fst (remove_reset ''/g'' [users_js, profiles_js] (snd (collectPaths ''/g'' True ?v)))
      = Inr ()" by code_simp
  have k2: "fst (unlink [users_js]
       (snd (remove_reset ''/g'' [users_js, profiles_js] (snd (collectPaths ''/g'' True ?v))))) = Inr ()"
    by code_simp
  have rn: "map (\<lambda>(old, new). Rename old new) (renames [[profiles_js]])
      = [Rename profiles_js ''/g/01_generate_profiles_table.js'']" by code_simp
  have ce2: "collectPaths ''/g'' True ?v =
      (Inr [users_js, profiles_js], snd (collectPaths ''/g'' True ?v))"
    using c2 by (simp add: prod_eq_iff)
  have re2: "remove_reset ''/g'' [users_js, profiles_js] (snd (collectPaths ''/g'' True ?v)) =
      (Inr (), snd (remove_reset ''/g'' [users_js, profiles_js] (snd (collectPaths ''/g'' True ?v))))"
    using r2 by (simp add: prod_eq_iff)
  have b': "filter is_fs_write (trace (snd (remove ''users'' ''/g'' ?v))) =
         filter is_fs_write (trace ?v) @ map Unlink [users_js] @
         map (\<lambda>(old, new). Rename old new) (renames [[profiles_js]])"
    using remove_in_order [OF n d ce2 g2 u2', of "PlainError []"
        "snd (remove_reset ''/g'' [users_js, profiles_js] (snd (collectPaths ''/g'' True ?v)))"]
      re2 k2 u2 by simp
  have t: "trace ?w = []" "trace ?v = []" "disk ?w = [users_js, tags_js]" by (simp_all add: world_def)
  show ?thesis using a' b' t rn by simp
qed

lemma reset_trace:
  assumes "isFullStr dir" and "next_fault st = None"
    and "\<forall>name \<in> set (listing dir st). isFile name \<or> isMappedFile name"
    and "sources = map (resolvePath dir) (filter (\<lambda>name. \<not> isMappedFile name) (listing dir st))"
    and "sources \<noteq> []" and "\<forall>p \<in> set sources. generator_at st p \<noteq> None"
  shows "(\<exists>msg. fst (reset dir st) = Inr msg) \<and>
     trace (snd (reset dir st)) =
       trace st @ [Readdir dir] @ map Require (rev sources) @
       map (drop_statement st) (rev sources) @ [Raw ''DROP TABLE generators;'']"
proof -
  let ?st1 = "st\<lparr>faults := tl (faults st), trace := trace st @ [Readdir dir]\<rparr>"
  have "invalid_file False (filter (\<lambda>name. \<not> isMappedFile name) (listing dir st)) = None"
    using assms(3) by (auto simp: invalid_file_def find_None_iff)
  then have c: "collectPaths dir False st = (Inr sources, ?st1)"
    using assms(2,4) by (simp add: collectPaths_cases)
  have ga: "\<And>p. generator_at ?st1 p = generator_at st p" by (simp add: generator_at_def)
  have ne: "rev sources \<noteq> []" using assms(5) by simp
  have al: "\<forall>p \<in> set (rev sources). generator_at ?st1 p \<noteq> None"
    using assms(6) by (simp add: ga)
  let ?gens = "map (\<lambda>p. the (generator_at st p)) (rev sources)"
  let ?st2 = "?st1\<lparr>trace := trace ?st1 @ map Require (rev sources)\<rparr>"
  have cg: "collectGenerators (rev sources) ?st1 = (Inr ?gens, ?st2)"
    using collectGenerators_ok [OF ne al] by (simp add: ga)
  have ex: "trace (snd (exec_loop ?gens 0 ?st2)) =
      trace ?st2 @ map (drop_statement st) (rev sources) @ [Raw ''DROP TABLE generators;'']"
    using exec_loop_state(1) [of ?gens 0 ?st2] by (simp add: drop_statement_def comp_def)
  show ?thesis
    using assms(1) c ne cg ex
    by (cases "exec_loop ?gens 0 ?st2") (simp add: reset_def reset_dropTables_def)
qed

text \<open>
  Claim C8, as the code has it. In a \<open>remove\<close> that has listed the directory and found
  files of the table, what decides the reset is the first listed path alone. When it is
  a TypeScript generator (\<open>isTsFile\<close>), nothing comes between the listing and the
  deletions: no reset. When it is not, and the second listing succeeds and every source
  file of the directory loads a generator, the reset comes first: the directory is
  listed again, the modules are loaded and a \<open>DROP TABLE\<close> is sent for the table of each,
  in reverse directory order, then \<open>DROP TABLE generators;\<close>, whatever the store answers
  to each of them; only then are the matched files deleted.
\<close>

theorem reset_before_delete:
  assumes "isSnakeCase name" and "isFullStr dir"
    and "collectPaths dir True st = (Inr ps, st1)"
    and "group_paths (filter (\<lambda>p. \<not> is_generator_of name p) ps) = Inr renamePaths"
    and "filter (is_generator_of name) ps \<noteq> []"
    and "sources = map (resolvePath dir) (filter (\<lambda>name. \<not> isMappedFile name) (listing dir st))"
  shows "(isTsFile (basename (hd ps)) \<longrightarrow>
       (\<exists>rest. trace (snd (remove name dir st)) =
          trace st @ [Readdir dir] @ map Unlink (filter (is_generator_of name) ps) @ rest \<and>
          (\<forall>ev \<in> set rest. is_fs_write ev))) \<and>
     (\<not> isTsFile (basename (hd ps)) \<and> next_fault st1 = None \<and> sources \<noteq> [] \<and>
      (\<forall>p \<in> set sources. generator_at st p \<noteq> None) \<longrightarrow>
       (\<exists>rest. trace (snd (remove name dir st)) =
          trace st @ [Readdir dir] @
          [Readdir dir] @ map Require (rev sources) @ map (drop_statement st) (rev sources) @
          [Raw ''DROP TABLE generators;''] @
          map Unlink (filter (is_generator_of name) ps) @ rest \<and>
          (\<forall>ev \<in> set rest. is_fs_write ev)))"
proof (intro conjI impI)
  have s1: "st1 = st\<lparr>faults := tl (faults st), trace := trace st @ [Readdir dir]\<rparr>"
    using collectPaths_state [of dir True st] assms(3) by simp
  from assms(5) obtain first others where ps: "ps = first # others" by (cases ps) auto
  {
    assume "isTsFile (basename (hd ps))"
    then have r: "remove_reset dir ps st1 = (Inr (), st1)"
      using ps by (simp add: remove_reset_def)
    from remove_after_reset [OF assms(1-5) r] s1
    show "\<exists>rest. trace (snd (remove name dir st)) =
          trace st @ [Readdir dir] @ map Unlink (filter (is_generator_of name) ps) @ rest \<and>
          (\<forall>ev \<in> set rest. is_fs_write ev)"
      by auto
  }
  {
    assume a: "\<not> isTsFile (basename (hd ps)) \<and> next_fault st1 = None \<and> sources \<noteq> [] \<and>
      (\<forall>p \<in> set sources. generator_at st p \<noteq> None)"
    have li: "listing dir st1 = listing dir st" and ga: "\<And>p. generator_at st1 p = generator_at st p"
      using s1 by (simp_all add: listing_def generator_at_def)
    have valid: "\<forall>name \<in> set (listing dir st1). isFile name \<or> isMappedFile name"
    proof -
      from assms(3) have "next_fault st = None"
        by (auto simp: collectPaths_cases split: option.splits)
      with assms(3) have "invalid_file True (listing dir st) = None"
        by (auto simp: collectPaths_cases Let_def split: option.splits)
      then show ?thesis unfolding li by (auto simp: invalid_file_def find_None_iff)
    qed
    have src: "sources = map (resolvePath dir)
        (filter (\<lambda>name. \<not> isMappedFile name) (listing dir st1))"
      using assms(6) li by simp
    have al: "\<forall>p \<in> set sources. generator_at st1 p \<noteq> None" using a ga by simp
    from a have nf: "next_fault st1 = None" and ne: "sources \<noteq> []" by auto
    note rt = reset_trace [OF assms(2) nf valid src ne al]
    have ds: "map (drop_statement st1) (rev sources) = map (drop_statement st) (rev sources)"
      by (simp add: drop_statement_def ga)
    obtain msg where m: "fst (reset dir st1) = Inr msg" using rt by blast
    then have r: "remove_reset dir ps st1 = (Inr (), snd (reset dir st1))"
      using a ps by (cases "reset dir st1") (auto simp: remove_reset_def)
    from remove_after_reset [OF assms(1-5) r] rt ds s1
    show "\<exists>rest. trace (snd (remove name dir st)) =
          trace st @ [Readdir dir] @
          [Readdir dir] @ map Require (rev sources) @ map (drop_statement st) (rev sources) @
          [Raw ''DROP TABLE generators;''] @
          map Unlink (filter (is_generator_of name) ps) @ rest \<and>
          (\<forall>ev \<in> set rest. is_fs_write ev)"
      by auto
  }
qed

text \<open>
  The counterexample to claim C8 as stated. A directory whose only file is a TypeScript
  source file (not a compiled artifact): no reset, the file is deleted at once. A
  directory that holds only compiled output (a \<open>.js\<close> file and its source map): the reset
  is performed.
\<close>

theorem reset_skipped_on_typescript:
  "isFile (basename users_ts) \<and> \<not> isMappedFile (basename users_ts) \<and>
   fst (remove ''users'' ''/g'' (world (Some three_rows) [users_ts] (example_modules Resolves Resolves)))
     = Inr (removed_message [users_ts]) \<and>
   trace (snd (remove ''users'' ''/g''
       (world (Some three_rows) [users_ts] (example_modules Resolves Resolves))))
     = [Readdir ''/g'', Unlink users_ts] \<and>
   isMappedFile (basename users_js_map) \<and>
   trace (snd (remove ''users'' ''/g''
       (world (Some three_rows) [users_js, users_js_map] (example_modules Resolves Resolves))))
     = [Readdir ''/g'', Readdir ''/g'', Require users_js, Raw ''DROP TABLE users;'',
        Raw ''DROP TABLE generators;'', Unlink users_js, Unlink users_js_map]"
  by code_simp


lemma other_calls:
  assumes "\<exists>rest. tr = before @ map Unlink us @ rest \<and> (\<forall>ev \<in> set rest. is_fs_write ev)"
  shows "filter (\<lambda>ev. \<not> is_fs_write ev) tr = filter (\<lambda>ev. \<not> is_fs_write ev) before"
proof -
  from assms obtain rest where t: "tr = before @ map Unlink us @ rest"
    and r: "\<forall>ev \<in> set rest. is_fs_write ev" by blast
  have "filter (\<lambda>ev. \<not> is_fs_write ev) (map Unlink us) = []"
    by (simp add: filter_empty_conv)
  moreover have "filter (\<lambda>ev. \<not> is_fs_write ev) rest = []"
    using r by (simp add: filter_empty_conv)
  ultimately show ?thesis using t by simp
qed

theorem reset_before_delete_witness:
  "filter (\<lambda>ev. \<not> is_fs_write ev) (trace (snd (remove ''users'' ''/g''
       (world (Some three_rows) [users_ts] (example_modules Resolves Resolves)))))
     = [Readdir ''/g''] \<and>
   filter (\<lambda>ev. \<not> is_fs_write ev) (trace (snd (remove ''users'' ''/g''
       ((world (Some three_rows) [users_js, profiles_js] (example_modules Resolves Resolves))
          \<lparr>faults := [None, None, Some (QueryError ''Unknown table'')]\<rparr>))))
     = [Readdir ''/g'', Readdir ''/g'', Require profiles_js, Require users_js,
        Raw ''DROP TABLE profiles;'', Raw ''DROP TABLE users;'', Raw ''DROP TABLE generators;'']"
proof -
  let ?w = "world (Some three_rows) [users_ts] (example_modules Resolves Resolves)"
  let ?v = "(world (Some three_rows) [users_js, profiles_js] (example_modules Resolves Resolves))
          \<lparr>faults := [None, None, Some (QueryError ''Unknown table'')]\<rparr>"
  have n: "isSnakeCase ''users''" and d: "isFullStr ''/g''" by code_simp+
  \<comment> \<open>a TypeScript directory\<close>
  have c: "fst (collectPaths ''/g'' True ?w) = Inr [users_ts]" by code_simp
  then have ce: "collectPaths ''/g'' True ?w = (Inr [users_ts], snd (collectPaths ''/g'' True ?w))"
    by (simp add: prod_eq_iff)
  have g: "group_paths (filter (\<lambda>p. \<not> is_generator_of ''users'' p) [users_ts]) = Inr []"
    by code_simp
  have u: "filter (is_generator_of ''users'') [users_ts] \<noteq> []" by code_simp
  have ts: "isTsFile (basename (hd [users_ts]))" by code_simp
  have a: "filter (\<lambda>ev. \<not> is_fs_write ev) (trace (snd (remove ''users'' ''/g'' ?w)))
      = filter (\<lambda>ev. \<not> is_fs_write ev) (trace ?w @ [Readdir ''/g''])"
    using reset_before_delete [OF n d ce g u refl] ts by (intro other_calls) simp
  \<comment> \<open>a JavaScript directory, the first DROP failing\<close>
  have c2: "fst (collectPaths ''/g'' True ?v) = Inr [users_js, profiles_js]" by code_simp
  then have ce2: "collectPaths ''/g'' True ?v =
      (Inr [users_js, profiles_js], snd (collectPaths ''/g'' True ?v))"
    by (simp add: prod_eq_iff)
  have g2: "group_paths (filter (\<lambda>p. \<not> is_generator_of ''users'' p) [users_js, profiles_js])
      = Inr [[profiles_js]]"
    by code_simp
  have u2: "filter (is_generator_of ''users'') [users_js, profiles_js] \<noteq> []" by code_simp
  have js: "\<not> isTsFile (basename (hd [users_js, profiles_js]))" by code_simp
  have src: "[users_js, profiles_js] = map (resolvePath ''/g'')
      (filter (\<lambda>name. \<not> isMappedFile name) (listing ''/g'' ?v))" by code_simp
  have nf: "next_fault (snd (collectPaths ''/g'' True ?v)) = None"
    by (simp add: collectPaths_state next_fault_def world_def)
  have al: "\<forall>p \<in> set [users_js, profiles_js]. generator_at ?v p \<noteq> None"
    by (simp add: example_defs)
  have b: "filter (\<lambda>ev. \<not> is_fs_write ev) (trace (snd (remove ''users'' ''/g'' ?v)))
      = filter (\<lambda>ev. \<not> is_fs_write ev) (trace ?v @ [Readdir ''/g''] @
          [Readdir ''/g''] @ map Require (rev [users_js, profiles_js]) @
          map (drop_statement ?v) (rev [users_js, profiles_js]) @
          [Raw ''DROP TABLE generators;''])"
    using reset_before_delete [OF n d ce2 g2 u2 src] js nf al
    by (intro other_calls) simp
  have ds: "map (drop_statement ?v) (rev [users_js, profiles_js])
      = [Raw ''DROP TABLE profiles;'', Raw ''DROP TABLE users;'']"
    by (simp add: drop_statement_def example_defs)
  have t: "trace ?w = []" "trace ?v = []" by (simp_all add: world_def)
  show ?thesis unfolding a b ds t by simp
qed

subsection \<open>Renumbering\<close>

lemma push_keys: "fst ` set (push k p storage) = insert k (fst ` set storage)"
  by (induction k p storage rule: push.induct) (auto split: if_splits)

lemma push_distinct: "distinct (map fst storage) \<Longrightarrow> distinct (map fst (push k p storage))"
  by (induction k p storage rule: push.induct) (auto simp: push_keys)

lemma lookup_push:
  "lookup (push k p storage) k' = (if k' = k then lookup storage k @ [p] else lookup storage k')"
  by (induction k p storage rule: push.induct) (auto simp: lookup_def)

text \<open>The storage \<open>group_paths\<close> builds: under each number, the paths that carry it, in order.\<close>

lemma group_loop_storage:
  assumes "\<forall>p \<in> set ps. match_number p \<noteq> None" and "distinct (map fst storage)"
  shows "\<exists>storage'. group_loop ps storage = Inr storage' \<and> distinct (map fst storage') \<and>
     set (map fst storage') = set (map fst storage) \<union> (\<lambda>p. the (match_number p)) ` set ps \<and>
     (\<forall>k. lookup storage' k = lookup storage k @ filter (\<lambda>p. the (match_number p) = k) ps)"
  using assms
proof (induction ps arbitrary: storage)
  case Nil
  then show ?case by simp
next
  case (Cons p ps)
  from Cons.prems(1) obtain k where k: "match_number p = Some k" by auto
  have d: "distinct (map fst (push k p storage))" using Cons.prems(2) by (rule push_distinct)
  from Cons.IH [OF _ d] Cons.prems(1) obtain storage' where
    s: "group_loop ps (push k p storage) = Inr storage'" "distinct (map fst storage')"
    "set (map fst storage') = set (map fst (push k p storage)) \<union> (\<lambda>p. the (match_number p)) ` set ps"
    "\<forall>k'. lookup storage' k' = lookup (push k p storage) k' @ filter (\<lambda>p. the (match_number p) = k') ps"
    by auto
  show ?case
  proof (intro exI conjI allI)
    show "group_loop (p # ps) storage = Inr storage'" using k s(1) by simp
    show "distinct (map fst storage')" by (rule s(2))
    show "set (map fst storage') =
        set (map fst storage) \<union> (\<lambda>p. the (match_number p)) ` set (p # ps)"
      using s(3) k by (auto simp: push_keys)
    fix k'
    show "lookup storage' k' =
        lookup storage k' @ filter (\<lambda>p. the (match_number p) = k') (p # ps)"
      using s(4) k by (auto simp: lookup_push)
  qed
qed

lemma object_keys_set: "set (object_keys storage) = set (map fst storage)"
  by (auto simp: object_keys_def)

lemma object_keys_distinct: "distinct (map fst storage) \<Longrightarrow> distinct (object_keys storage)"
  by (auto simp: object_keys_def distinct_map_filter)

lemma sort_key_inj:
  assumes "distinct ks" and "inj_on f (set ks)"
  shows "map f (sort_key f ks) = sorted_list_of_set (f ` set ks)"
proof -
  have "sorted (map f (sort_key f ks))" by simp
  moreover have "distinct (map f (sort_key f ks))"
    using assms by (simp add: distinct_map)
  moreover have "set (map f (sort_key f ks)) = f ` set ks" by simp
  ultimately show ?thesis
    by (metis sorted_list_of_set.idem_if_sorted_distinct)
qed


lemma count_concat_groups:
  assumes "distinct ns"
  shows "count_list (concat (map (\<lambda>n. filter (\<lambda>p. f p = n) ps) ns)) p =
    (if f p \<in> set ns then count_list ps p else 0)"
  using assms
proof (induction ns)
  case Nil
  show ?case by simp
next
  case (Cons n ns)
  have c: "count_list (filter (\<lambda>q. f q = n) ps) p = (if f p = n then count_list ps p else 0)"
    by (induction ps) auto
  show ?case using Cons c by auto
qed

lemma renames_unfold:
  "renames gs = concat (map (\<lambda>(i, grp). map (\<lambda>p. (p, dirname p @ ''/'' @
       padStart2 (toString (i + 1)) @ strip_number (basename p))) grp) (enumerate 0 gs))"
  by (simp add: renames_def new_path_def Let_def)


lemma matches_Zero: "\<not> matches Zero s"
  by (induction s) auto

lemma matches_star_digit:
  "matches (Star digit) s \<longleftrightarrow> (\<forall>c \<in> set s. c \<in> set ''0123456789'')"
  by (induction s) (auto simp: digit_def matches_Zero)

lemma matches_digits:
  "matches (one_or_more digit) s \<longleftrightarrow> s \<noteq> [] \<and> (\<forall>c \<in> set s. c \<in> set ''0123456789'')"
proof (cases s)
  case Nil
  then show ?thesis by (simp add: one_or_more_def digit_def)
next
  case (Cons c cs)
  show ?thesis
  proof (cases "c \<in> set ''0123456789''")
    case True
    then have "deriv c (one_or_more digit) = Star digit"
      by (simp add: one_or_more_def digit_def)
    then show ?thesis using Cons True matches_star_digit [of cs] by simp
  next
    case False
    then have "deriv c (one_or_more digit) = Zero"
      by (simp add: one_or_more_def digit_def)
    then show ?thesis using Cons False by (simp add: matches_Zero)
  qed
qed

lemma find_greatest:
  "1 \<le> m \<Longrightarrow> m \<le> n \<Longrightarrow> P m \<Longrightarrow> (\<forall>k. m < k \<and> k \<le> n \<longrightarrow> \<not> P k) \<Longrightarrow>
   find P (rev [1 ..< Suc n]) = Some m"
proof (induction n)
  case 0
  then show ?case by simp
next
  case (Suc n)
  show ?case
  proof (cases "m = Suc n")
    case True
    then show ?thesis using Suc.prems by simp
  next
    case False
    then have "m \<le> n" "\<not> P (Suc n)" using Suc.prems by auto
    then show ?thesis using Suc by simp
  qed
qed

text \<open>What \<open>rename\<close> keeps of a file name: all that follows its leading digits.\<close>

lemma strip_number_keeps_name:
  assumes "ds \<noteq> []" and "\<forall>c \<in> set ds. c \<in> set ''0123456789''"
  shows "strip_number (ds @ CHR ''_'' # rest) = CHR ''_'' # rest"
proof -
  let ?name = "ds @ CHR ''_'' # rest"
  have "find (\<lambda>k. matches (one_or_more digit) (take k ?name) \<and> True)
      (rev [1 ..< Suc (length ?name)]) = Some (length ds)"
  proof (rule find_greatest)
    show "1 \<le> length ds" using assms(1) by (cases ds) auto
    show "length ds \<le> length ?name" by simp
    show "matches (one_or_more digit) (take (length ds) ?name) \<and> True"
      using assms by (simp add: matches_digits)
    show "\<forall>k. length ds < k \<and> k \<le> length ?name \<longrightarrow>
        \<not> (matches (one_or_more digit) (take k ?name) \<and> True)"
    proof (intro allI impI)
      fix k assume k: "length ds < k \<and> k \<le> length ?name"
      then obtain j where "k - length ds = Suc j" by (cases "k - length ds") auto
      then have "CHR ''_'' \<in> set (take k ?name)" by simp
      then show "\<not> (matches (one_or_more digit) (take k ?name) \<and> True)"
        by (auto simp: matches_digits)
    qed
  qed
  then show ?thesis by (simp add: strip_number_def longest_number_def)
qed

text \<open>
  Where the renumbering works. For remaining paths in whose file names the pattern of
  \<open>group\<close> finds its leftmost match, and whose numbers are written one way each (as
  the zero-padded names of a numbered directory are) and are below \<open>2 ^ 53\<close>, where
  the numbers of JavaScript are exact: \<open>group\<close> returns, for each
  number that occurs, in ascending order, the paths that carry it, in their order; every
  path is in exactly one group; and \<open>rename\<close> gives each path of the group at index
  \<open>i\<close> the name made of \<open>i + 1\<close> padded with a zero to two digits and of what follows
  the leading digits of its old name (table name and extension), in the same directory.
\<close>

theorem renumbering:
  assumes "\<forall>p \<in> set ps. number_at (basename p) \<noteq> None \<and>
             match_number p = number_at (basename p)"
    and "inj_on parseInt ((\<lambda>p. the (number_at (basename p))) ` set ps)"
    and "\<forall>p \<in> set ps. int (parseInt (the (number_at (basename p)))) < 9007199254740992"
  shows "let seq = (\<lambda>p. parseInt (the (number_at (basename p))));
             gs = map (\<lambda>n. filter (\<lambda>p. seq p = n) ps) (sorted_list_of_set (seq ` set ps))
         in group_paths ps = Inr gs \<and>
            (\<forall>p. count_list (concat gs) p = count_list ps p) \<and>
            renames gs = concat (map (\<lambda>(i, grp). map (\<lambda>p. (p, dirname p @ ''/'' @
              padStart2 (toString (i + 1)) @ strip_number (basename p))) grp) (enumerate 0 gs)) \<and>
            (\<forall>ds rest. ds \<noteq> [] \<and> (\<forall>c \<in> set ds. c \<in> set ''0123456789'') \<longrightarrow>
               strip_number (ds @ CHR ''_'' # rest) = CHR ''_'' # rest)"
proof -
  let ?key = "\<lambda>p. the (match_number p)"
  let ?seq = "\<lambda>p. parseInt (the (number_at (basename p)))"
  let ?gs = "map (\<lambda>n. filter (\<lambda>p. ?seq p = n) ps) (sorted_list_of_set (?seq ` set ps))"
  have key: "\<forall>p \<in> set ps. ?key p = the (number_at (basename p))" using assms(1) by simp
  have m: "\<forall>p \<in> set ps. match_number p \<noteq> None" using assms(1) by simp
  have inj: "inj_on parseInt (?key ` set ps)"
  proof -
    have "?key ` set ps = (\<lambda>p. the (number_at (basename p))) ` set ps"
      using key by (intro image_cong) auto
    then show ?thesis using assms(2) by simp
  qed
  from group_loop_storage [OF m, of "[]"] obtain storage where
    g: "group_loop ps [] = Inr storage" and d: "distinct (map fst storage)"
    and k: "set (map fst storage) = ?key ` set ps"
    and l: "\<forall>k. lookup storage k = filter (\<lambda>p. ?key p = k) ps"
    by (auto simp: lookup_def)
  let ?ks = "sort_key parseInt (object_keys storage)"
  have ok: "set (object_keys storage) = ?key ` set ps" "distinct (object_keys storage)"
    using k d by (simp_all add: object_keys_set object_keys_distinct)
  have srt: "map parseInt ?ks = sorted_list_of_set (?seq ` set ps)"
  proof -
    have "map parseInt ?ks = sorted_list_of_set (parseInt ` set (object_keys storage))"
      using ok inj by (intro sort_key_inj) simp_all
    moreover have "parseInt ` ?key ` set ps = ?seq ` set ps"
      using key by (auto simp: image_iff)
    ultimately show ?thesis using ok(1) by simp
  qed
  have grp: "\<forall>k \<in> set ?ks. lookup storage k = filter (\<lambda>p. ?seq p = parseInt k) ps"
  proof
    fix k assume "k \<in> set ?ks"
    then have kin: "k \<in> ?key ` set ps" using ok(1) by simp
    have "filter (\<lambda>p. ?key p = k) ps = filter (\<lambda>p. ?seq p = parseInt k) ps"
    proof (rule filter_cong [OF refl])
      fix p assume p: "p \<in> set ps"
      then have "?key p \<in> ?key ` set ps" by simp
      then have "(?key p = k) = (parseInt (?key p) = parseInt k)"
        using inj kin by (auto dest: inj_onD)
      then show "(?key p = k) = (?seq p = parseInt k)" using key p by simp
    qed
    then show "lookup storage k = filter (\<lambda>p. ?seq p = parseInt k) ps" using l by simp
  qed
  have "map (lookup storage) ?ks = map (\<lambda>n. filter (\<lambda>p. ?seq p = n) ps) (map parseInt ?ks)"
    using grp by (simp add: comp_def)
  then have gr: "group_paths ps = Inr ?gs" using g srt by (simp add: group_paths_def)
  have cnt: "\<forall>p. count_list (concat ?gs) p = count_list ps p"
  proof
    fix p
    have "count_list (concat ?gs) p =
        (if ?seq p \<in> set (sorted_list_of_set (?seq ` set ps)) then count_list ps p else 0)"
      by (rule count_concat_groups) simp
    then show "count_list (concat ?gs) p = count_list ps p"
      by (cases "p \<in> set ps") (auto simp: count_list_0_iff)
  qed
  have keep: "\<forall>ds rest. ds \<noteq> [] \<and> (\<forall>c \<in> set ds. c \<in> set ''0123456789'') \<longrightarrow>
      strip_number (ds @ CHR ''_'' # rest) = CHR ''_'' # rest"
    using strip_number_keeps_name by blast
  show ?thesis unfolding Let_def using gr cnt renames_unfold [of ?gs] keep by blast
qed


theorem renumbering_witness:
  "group_paths [profiles_js, ''/g/02_generate_profiles_table.js.map'', orders_js] =
     Inr [[profiles_js, ''/g/02_generate_profiles_table.js.map''], [orders_js]] \<and>
   renames [[profiles_js, ''/g/02_generate_profiles_table.js.map''], [orders_js]] =
     [(profiles_js, ''/g/01_generate_profiles_table.js''),
      (''/g/02_generate_profiles_table.js.map'', ''/g/01_generate_profiles_table.js.map''),
      (orders_js, ''/g/02_generate_orders_table.js'')]"
proof -
  let ?ps = "[profiles_js, ''/g/02_generate_profiles_table.js.map'', orders_js]"
  let ?seq = "\<lambda>p. parseInt (the (number_at (basename p)))"
  have h1: "\<forall>p \<in> set ?ps. number_at (basename p) \<noteq> None \<and>
             match_number p = number_at (basename p)"
    by code_simp
  have k: "map (\<lambda>p. the (number_at (basename p))) ?ps = [''02'', ''02'', ''03'']" by code_simp
  have "(\<lambda>p. the (number_at (basename p))) ` set ?ps = {''02'', ''03''}"
    using arg_cong [OF k, of set] by simp
  moreover have "parseInt ''02'' = 2" "parseInt ''03'' = 3" by code_simp+
  ultimately have h2: "inj_on parseInt ((\<lambda>p. the (number_at (basename p))) ` set ?ps)"
    by simp
  have h3: "\<forall>p \<in> set ?ps. int (parseInt (the (number_at (basename p)))) < 9007199254740992"
    by code_simp
  have gs: "map (\<lambda>n. filter (\<lambda>p. ?seq p = n) ?ps) (sorted_list_of_set (?seq ` set ?ps)) =
      [[profiles_js, ''/g/02_generate_profiles_table.js.map''], [orders_js]]"
    by code_simp
  have rn: "concat (map (\<lambda>(i, grp). map (\<lambda>p. (p, dirname p @ ''/'' @
              padStart2 (toString (i + 1)) @ strip_number (basename p))) grp)
            (enumerate 0 [[profiles_js, ''/g/02_generate_profiles_table.js.map''], [orders_js]])) =
     [(profiles_js, ''/g/01_generate_profiles_table.js''),
      (''/g/02_generate_profiles_table.js.map'', ''/g/01_generate_profiles_table.js.map''),
      (orders_js, ''/g/02_generate_orders_table.js'')]"
    by code_simp
  from renumbering [OF h1 h2 h3]
  have "group_paths ?ps = Inr (map (\<lambda>n. filter (\<lambda>p. ?seq p = n) ?ps)
          (sorted_list_of_set (?seq ` set ?ps)))"
    and "renames (map (\<lambda>n. filter (\<lambda>p. ?seq p = n) ?ps) (sorted_list_of_set (?seq ` set ?ps))) =
       concat (map (\<lambda>(i, grp). map (\<lambda>p. (p, dirname p @ ''/'' @
              padStart2 (toString (i + 1)) @ strip_number (basename p))) grp)
         (enumerate 0 (map (\<lambda>n. filter (\<lambda>p. ?seq p = n) ?ps)
            (sorted_list_of_set (?seq ` set ?ps)))))"
    unfolding Let_def by blast+
  then show ?thesis unfolding gs rn by simp
qed

text \<open>
  Claim C7 fails on the code when the path of the directory itself has a match of the
  pattern: \<open>group\<close> searches the whole path, not the file name, and takes the number
  of the leftmost match. In \<open>/d/1_generate_x_table\<close> every file is grouped under
  \<open>1\<close>; after the files of \<open>users\<close> are removed, the files numbered 02 and 03 are
  both renamed to 01, where the claim has them renamed to 01 and 02.
\<close>

theorem group_reads_directory_name:
  "match_number (nested ''02_generate_profiles_table.js'') = Some ''1'' \<and>
   group_paths [nested ''02_generate_profiles_table.js'', nested ''03_generate_orders_table.js''] =
     Inr [[nested ''02_generate_profiles_table.js'', nested ''03_generate_orders_table.js'']] \<and>
   filter is_fs_write (trace (snd (remove ''users'' ''/d/1_generate_x_table'' nested_world))) =
     [Unlink (nested ''01_generate_users_table.js''),
      Rename (nested ''02_generate_profiles_table.js'') (nested ''01_generate_profiles_table.js''),
      Rename (nested ''03_generate_orders_table.js'') (nested ''01_generate_orders_table.js'')] \<and>
   disk (snd (remove ''users'' ''/d/1_generate_x_table'' nested_world)) =
     [nested ''01_generate_profiles_table.js'', nested ''01_generate_orders_table.js'']"
  by code_simp

end
